theory Spec2Isabelle
  imports Complex_Main "HOL-Library.Multiset"
begin

section \<open>Exceptions\<close>

text \<open>
  The exceptions that the model's processes and the two libraries they call can raise.
  \<open>ValueError\<close> carries its message: the model raises it for an unknown distribution
  name, the simulation library for a negative delay and for a horizon that is not in the
  future. \<open>RuntimeError\<close> is what the simulation library raises when the queue runs empty
  before the horizon.
\<close>

datatype error = ValueError string | ZeroDivisionError | IndexError | RuntimeError

definition py_div :: "real \<Rightarrow> real \<Rightarrow> error + real" where
  "py_div a b = (if b = 0 then Inl ZeroDivisionError else Inr (a / b))"

section \<open>The module-level random generator\<close>

text \<open>
  \<open>model.py\<close> draws every variate from the functions of Python's \<open>random\<close> module, that
  is from the one generator that the interpreter process shares. The library is not part
  of the repository. It is taken here as a source \<open>g\<close> of primitive variates together
  with the position \<open>r\<close> the process-wide generator has reached: the library call made at
  position \<open>r\<close> reads \<open>g r\<close> (for \<open>expovariate\<close>, \<open>uniform\<close> and \<open>choice\<close> the value of
  \<open>random()\<close>, which lies in \<open>[0, 1)\<close>; for \<open>gauss\<close> a standard normal variate) and moves
  the generator on. Each function returns its result and the new position.

  \<open>expovariate(lambd)\<close> is \<open>-log(1 - random()) / lambd\<close>, \<open>uniform(a, b)\<close> is
  \<open>a + (b - a) * random()\<close>, \<open>gauss(mu, sigma)\<close> is \<open>mu + z * sigma\<close> for the normal variate
  \<open>z\<close>, and \<open>choice(seq)\<close> is the element at the index \<open>floor(random() * len(seq))\<close>; it
  raises \<open>IndexError\<close> on an empty sequence.
\<close>

type_synonym source = "nat \<Rightarrow> real"

definition expovariate :: "real \<Rightarrow> source \<Rightarrow> nat \<Rightarrow> (error + real) \<times> nat" where
  "expovariate lambd g r =
     (if lambd = 0 then (Inl ZeroDivisionError, Suc r)
      else (Inr (- ln (1 - g r) / lambd), Suc r))"

definition uniform :: "real \<Rightarrow> real \<Rightarrow> source \<Rightarrow> nat \<Rightarrow> (error + real) \<times> nat" where
  "uniform a b g r = (Inr (a + (b - a) * g r), Suc r)"

definition gauss :: "real \<Rightarrow> real \<Rightarrow> source \<Rightarrow> nat \<Rightarrow> (error + real) \<times> nat" where
  "gauss mu sigma g r = (Inr (mu + g r * sigma), Suc r)"

definition choice :: "'a list \<Rightarrow> source \<Rightarrow> nat \<Rightarrow> (error + 'a) \<times> nat" where
  "choice seq g r =
     (if seq = [] then (Inl IndexError, r)
      else (let i = nat \<lfloor>g r * real (length seq)\<rfloor>
            in if i < length seq then (Inr (seq ! i), Suc r) else (Inl IndexError, Suc r)))"

section \<open>Configuration\<close>

text \<open>
  The \<open>params\<close> dictionary. \<open>server_processing_time_std\<close> is the one key read with
  \<open>params.get\<close>, so it may be absent; \<open>queue_timeout\<close> and \<open>custom_values\<close> are the keys
  that \<open>app.py\<close> stores in the dictionary next to the others.
\<close>

record config =
  num_servers :: int
  server_processing_time :: real
  server_processing_time_std :: "real option"
  queue_timeout :: real
  request_rate :: real
  failure_rate :: real
  recovery_rate :: real
  request_rate_distribution :: string
  server_processing_time_distribution :: string
  failure_rate_distribution :: string
  recovery_time_distribution :: string
  custom_values :: "real list"

section \<open>\<open>WebServiceModel.random_value\<close>\<close>

text \<open>The keyword arguments of \<open>random_value\<close>; \<open>None\<close> is a keyword the caller left out.\<close>

record kwargs =
  kw_rate :: "real option"
  kw_mean :: "real option"
  kw_std :: "real option"
  kw_low :: "real option"
  kw_high :: "real option"
  kw_values :: "real list option"

definition kwargs_get :: "'a option \<Rightarrow> 'a \<Rightarrow> 'a" where
  "kwargs_get v d = (case v of None \<Rightarrow> d | Some x \<Rightarrow> x)"

definition random_value :: "string \<Rightarrow> kwargs \<Rightarrow> source \<Rightarrow> nat \<Rightarrow> (error + real) \<times> nat" where
  "random_value distribution kw g r =
     (if distribution = ''exponential'' then expovariate (kwargs_get (kw_rate kw) 1) g r
      else if distribution = ''uniform'' then
        uniform (kwargs_get (kw_low kw) 0) (kwargs_get (kw_high kw) 1) g r
      else if distribution = ''normal'' then
        (case gauss (kwargs_get (kw_mean kw) 0) (kwargs_get (kw_std kw) 1) g r of
           (Inr x, r') \<Rightarrow> (Inr (max 0 x), r')
         | (Inl e, r') \<Rightarrow> (Inl e, r'))
      else if distribution = ''custom'' then choice (kwargs_get (kw_values kw) [1]) g r
      else (Inl (ValueError ''Unsupported distribution''), r))"

section \<open>The simulation library: event queue and resources\<close>

text \<open>
  The simulation library (\<open>simpy\<close>) is not part of the repository either. What the model
  uses of it is written out here after the library's behaviour: an environment with a
  clock and a queue of scheduled events ordered by (time, priority, event id), processes
  that run until their next \<open>yield\<close>, and resources of capacity 1 with a list of users
  and a queue of pending requests.

  A process that is suspended waits on exactly one event, and no event of this program has
  more than one process waiting on it. So the continuation of the suspended process is
  carried by the event it waits on: an event names the point of the source at which the
  process resumes and the local variables it still holds.
\<close>

datatype event =
    InitGenerate                    \<comment> \<open>start of \<open>generate_requests\<close>\<close>
  | InitFailures                    \<comment> \<open>start of \<open>server_failures\<close>\<close>
  | InitRequest int                 \<comment> \<open>start of \<open>process_request(request_id)\<close>\<close>
  | ArrivalTimeout int              \<comment> \<open>\<open>generate_requests\<close> at its \<open>yield\<close>, holding \<open>request_id\<close>\<close>
  | Granted int nat real            \<comment> \<open>the granted request of a handler: \<open>request_id\<close>, server, \<open>arrival_time\<close>\<close>
  | ProcessingTimeout int nat real  \<comment> \<open>a handler at its second \<open>yield\<close>\<close>
  | Release nat                     \<comment> \<open>the release event of a server\<close>
  | FailureTimeout                  \<comment> \<open>\<open>server_failures\<close> at its first \<open>yield\<close>\<close>
  | RecoveryTimeout nat             \<comment> \<open>\<open>server_failures\<close> at its second \<open>yield\<close>, holding the server\<close>
  | Terminated "error option"       \<comment> \<open>the event of a process that ended, with its exception if it failed\<close>
  | Until                           \<comment> \<open>the horizon of \<open>env.run(until=t)\<close>\<close>

type_synonym entry = "real \<times> nat \<times> nat \<times> event"

abbreviation (input) URGENT :: nat where "URGENT \<equiv> 0"
abbreviation (input) NORMAL :: nat where "NORMAL \<equiv> 1"

fun entry_less :: "entry \<Rightarrow> entry \<Rightarrow> bool" where
  "entry_less (t1, p1, i1, e1) (t2, p2, i2, e2) =
     (t1 < t2 \<or> (t1 = t2 \<and> (p1 < p2 \<or> (p1 = p2 \<and> i1 < i2))))"

text \<open>The heap is kept as the list of its entries in the order in which they will be popped.\<close>

fun heappush :: "entry \<Rightarrow> entry list \<Rightarrow> entry list" where
  "heappush x [] = [x]"
| "heappush x (y # ys) = (if entry_less x y then x # y # ys else y # heappush x ys)"

text \<open>
  A server is a \<open>simpy.Resource\<close>: \<open>capacity\<close> is its \<open>_capacity\<close> field, which
  \<open>server_failures\<close> overwrites with 0 and 1; \<open>users\<close> holds the requests that hold the
  resource and \<open>put_queue\<close> the requests that wait for it, each with the \<open>request_id\<close> of
  its handler (and, while it waits, the handler's \<open>arrival_time\<close>).
\<close>

record server =
  capacity :: int
  users :: "int list"
  put_queue :: "(int \<times> real) list"

text \<open>
  The environment and the model object together. \<open>rng\<close> is the position of the
  process-wide generator. \<open>spawned\<close> is a history variable that no branch reads: the
  number of calls \<open>env.process(self.process_request(request_id))\<close> made so far.
\<close>

record model =
  now :: real
  queue :: "entry list"
  eid :: nat
  servers :: "server list"
  total_requests :: int
  completed_requests :: int
  failed_requests :: int
  latency :: "real list"
  available_servers :: int
  rng :: nat
  spawned :: int

definition schedule :: "event \<Rightarrow> nat \<Rightarrow> real \<Rightarrow> model \<Rightarrow> model" where
  "schedule e priority delay s =
     s\<lparr>queue := heappush (now s + delay, priority, eid s, e) (queue s), eid := Suc (eid s)\<rparr>"

text \<open>A process that returns, and a process that raises: its event is scheduled either way.\<close>

definition finish :: "model \<Rightarrow> model" where
  "finish s = schedule (Terminated None) NORMAL 0 s"

definition fail :: "error \<Rightarrow> model \<Rightarrow> model" where
  "fail e s = schedule (Terminated (Some e)) NORMAL 0 s"

text \<open>\<open>yield self.env.timeout(delay)\<close>: the process resumes at the event \<open>e\<close>.\<close>

definition timeout :: "real \<Rightarrow> event \<Rightarrow> model \<Rightarrow> model" where
  "timeout delay e s =
     (if delay < 0 then fail (ValueError ''Negative delay'') s else schedule e NORMAL delay s)"

text \<open>
  \<open>_trigger_put\<close> of server \<open>i\<close>: the first pending request is granted when the server has
  fewer users than capacity; the loop of the library stops after the first request.
\<close>

definition trigger_put :: "nat \<Rightarrow> model \<Rightarrow> model" where
  "trigger_put i s =
     (let sv = servers s ! i in
      case put_queue sv of
        [] \<Rightarrow> s
      | (rid, arrival_time) # rest \<Rightarrow>
          if int (length (users sv)) < capacity sv then
            schedule (Granted rid i arrival_time) NORMAL 0
              (s\<lparr>servers := (servers s)[i := sv\<lparr>users := users sv @ [rid], put_queue := rest\<rparr>]\<rparr>)
          else s)"

text \<open>\<open>server.request()\<close>: the request joins the queue of the server, which is triggered.\<close>

definition request :: "nat \<Rightarrow> int \<Rightarrow> real \<Rightarrow> model \<Rightarrow> model" where
  "request i rid arrival_time s =
     (let sv = servers s ! i in
      trigger_put i
        (s\<lparr>servers := (servers s)[i := sv\<lparr>put_queue := put_queue sv @ [(rid, arrival_time)]\<rparr>]\<rparr>))"

text \<open>
  Leaving the \<open>with\<close> block releases the server: the request is removed from the users
  and the release event is scheduled.
\<close>

definition release :: "nat \<Rightarrow> int \<Rightarrow> model \<Rightarrow> model" where
  "release i rid s =
     (let sv = servers s ! i in
      schedule (Release i) NORMAL 0
        (s\<lparr>servers := (servers s)[i := sv\<lparr>users := remove1 rid (users sv)\<rparr>]\<rparr>))"

section \<open>\<open>WebServiceModel\<close>\<close>

text \<open>
  \<open>__init__\<close>, on a fresh environment: the servers, the metrics and the two processes,
  whose start events are scheduled at time 0. The constructor has no branch that raises;
  \<open>r\<close> is where the process-wide generator stands when the model is built.
\<close>

definition init :: "config \<Rightarrow> nat \<Rightarrow> error + model" where
  "init params r =
     Inr (schedule InitFailures URGENT 0 (schedule InitGenerate URGENT 0
       \<lparr>now = 0, queue = [], eid = 0,
        servers = replicate (nat (num_servers params)) \<lparr>capacity = 1, users = [], put_queue = []\<rparr>,
        total_requests = 0, completed_requests = 0, failed_requests = 0, latency = [],
        available_servers = num_servers params, rng = r, spawned = 0\<rparr>))"

text \<open>
  The keyword arguments that \<open>generate_requests\<close> and \<open>server_failures\<close> build from a rate:
  \<open>rate\<close>, \<open>mean = 1 / rate\<close>, \<open>std = 0.1\<close>, \<open>low = 0.1\<close>, \<open>high = 1 / rate * 2\<close>. The
  division raises for a rate of 0, before \<open>random_value\<close> is entered.
\<close>

definition rate_kwargs :: "real \<Rightarrow> error + kwargs" where
  "rate_kwargs rate =
     (case py_div 1 rate of
        Inl e \<Rightarrow> Inl e
      | Inr m \<Rightarrow> Inr \<lparr>kw_rate = Some rate, kw_mean = Some m, kw_std = Some (1 / 10),
                     kw_low = Some (1 / 10), kw_high = Some (m * 2), kw_values = None\<rparr>)"

text \<open>The keyword arguments of the call in \<open>process_request\<close>: no \<open>rate\<close> and no \<open>values\<close>.\<close>

definition processing_kwargs :: "config \<Rightarrow> kwargs" where
  "processing_kwargs params =
     \<lparr>kw_rate = None, kw_mean = Some (server_processing_time params),
      kw_std = Some (kwargs_get (server_processing_time_std params) (1 / 10)),
      kw_low = Some (1 / 10), kw_high = Some (server_processing_time params * 2),
      kw_values = None\<rparr>"

text \<open>
  Draw a duration and suspend for it: the pattern
  \<open>yield self.env.timeout(self.random_value(...))\<close> of all three processes. An exception
  of the draw or of the timeout ends the process.
\<close>

definition draw_and_wait :: "string \<Rightarrow> error + kwargs \<Rightarrow> event \<Rightarrow> source \<Rightarrow> model \<Rightarrow> model" where
  "draw_and_wait distribution kws e g s =
     (case kws of
        Inl err \<Rightarrow> fail err s
      | Inr kw \<Rightarrow>
          (case random_value distribution kw g (rng s) of
             (Inl err, r) \<Rightarrow> fail err (s\<lparr>rng := r\<rparr>)
           | (Inr d, r) \<Rightarrow> timeout d e (s\<lparr>rng := r\<rparr>)))"

subsection \<open>\<open>generate_requests\<close>\<close>

text \<open>One turn of the loop, from its top to the \<open>yield\<close>.\<close>

definition generate_requests :: "config \<Rightarrow> source \<Rightarrow> model \<Rightarrow> model" where
  "generate_requests params g s =
     (let s1 = s\<lparr>total_requests := total_requests s + 1\<rparr>;
          request_id = total_requests s1
      in draw_and_wait (request_rate_distribution params) (rate_kwargs (request_rate params))
           (ArrivalTimeout request_id) g s1)"

text \<open>After the \<open>yield\<close>: the handler is spawned and the loop turns again.\<close>

definition generate_requests_resume :: "config \<Rightarrow> source \<Rightarrow> int \<Rightarrow> model \<Rightarrow> model" where
  "generate_requests_resume params g request_id s =
     generate_requests params g
       (schedule (InitRequest request_id) URGENT 0 (s\<lparr>spawned := spawned s + 1\<rparr>))"

subsection \<open>\<open>process_request\<close>\<close>

text \<open>The scan \<open>for s in self.servers: if len(s.users) == 0\<close>; \<open>i\<close> is the index reached.\<close>

fun find_free :: "server list \<Rightarrow> nat \<Rightarrow> nat option" where
  "find_free [] i = None"
| "find_free (sv # svs) i = (if length (users sv) = 0 then Some i else find_free svs (Suc i))"

text \<open>From the start of the handler to \<open>yield req\<close>, or to the \<open>return\<close> of a rejection.\<close>

definition process_request :: "int \<Rightarrow> model \<Rightarrow> model" where
  "process_request request_id s =
     (let arrival_time = now s in
      case find_free (servers s) 0 of
        None \<Rightarrow> finish (s\<lparr>failed_requests := failed_requests s + 1\<rparr>)
      | Some i \<Rightarrow> request i request_id arrival_time s)"

text \<open>
  From \<open>yield req\<close> to \<open>yield self.env.timeout(processing_time)\<close>. An exception inside the
  \<open>with\<close> block releases the server before it ends the process; it is not a
  \<open>simpy.Interrupt\<close>, so the \<open>except\<close> clause does not catch it.
\<close>

definition process_request_granted :: "config \<Rightarrow> source \<Rightarrow> int \<Rightarrow> nat \<Rightarrow> real \<Rightarrow> model \<Rightarrow> model" where
  "process_request_granted params g request_id i arrival_time s =
     (case random_value (server_processing_time_distribution params) (processing_kwargs params)
             g (rng s) of
        (Inl err, r) \<Rightarrow> fail err (release i request_id (s\<lparr>rng := r\<rparr>))
      | (Inr processing_time, r) \<Rightarrow>
          if processing_time < 0 then
            fail (ValueError ''Negative delay'') (release i request_id (s\<lparr>rng := r\<rparr>))
          else schedule (ProcessingTimeout request_id i arrival_time) NORMAL processing_time
                 (s\<lparr>rng := r\<rparr>))"

text \<open>After the processing time: the counters, the release, the end of the handler.\<close>

definition process_request_done :: "int \<Rightarrow> nat \<Rightarrow> real \<Rightarrow> model \<Rightarrow> model" where
  "process_request_done request_id i arrival_time s =
     finish (release i request_id
       (s\<lparr>completed_requests := completed_requests s + 1,
          latency := latency s @ [now s - arrival_time]\<rparr>))"

subsection \<open>\<open>server_failures\<close>\<close>

text \<open>The top of the loop: the time to the next failure.\<close>

definition server_failures :: "config \<Rightarrow> source \<Rightarrow> model \<Rightarrow> model" where
  "server_failures params g s =
     draw_and_wait (failure_rate_distribution params) (rate_kwargs (failure_rate params))
       FailureTimeout g s"

text \<open>
  After the first \<open>yield\<close>: \<open>random.choice(self.servers)\<close>, here the choice of an index.
  An idle server is taken out of service and the process waits for the recovery time; on
  a busy server the loop turns again.
\<close>

definition server_failures_select :: "config \<Rightarrow> source \<Rightarrow> model \<Rightarrow> model" where
  "server_failures_select params g s =
     (case choice [0..<length (servers s)] g (rng s) of
        (Inl err, r) \<Rightarrow> fail err (s\<lparr>rng := r\<rparr>)
      | (Inr i, r) \<Rightarrow>
          if length (users (servers s ! i)) = 0 then
            draw_and_wait (recovery_time_distribution params) (rate_kwargs (recovery_rate params))
              (RecoveryTimeout i) g
              (s\<lparr>rng := r,
                 servers := (servers s)[i := (servers s ! i)\<lparr>capacity := 0\<rparr>],
                 available_servers := available_servers s - 1\<rparr>)
          else server_failures params g (s\<lparr>rng := r\<rparr>))"

text \<open>After the second \<open>yield\<close>: the server is back and the loop turns again.\<close>

definition server_failures_recover :: "config \<Rightarrow> source \<Rightarrow> nat \<Rightarrow> model \<Rightarrow> model" where
  "server_failures_recover params g i s =
     server_failures params g
       (s\<lparr>servers := (servers s)[i := (servers s ! i)\<lparr>capacity := 1\<rparr>],
          available_servers := available_servers s + 1\<rparr>)"

subsection \<open>\<open>get_metrics\<close>\<close>

record metrics =
  m_total_requests :: int
  m_completed_requests :: int
  m_failed_requests :: int
  m_avg_latency :: real
  m_available_servers :: int

definition get_metrics :: "model \<Rightarrow> metrics" where
  "get_metrics s =
     \<lparr>m_total_requests = total_requests s,
      m_completed_requests = completed_requests s,
      m_failed_requests = failed_requests s,
      m_avg_latency = (if latency s \<noteq> [] then sum_list (latency s) / real (length (latency s)) else 0),
      m_available_servers = available_servers s\<rparr>"

section \<open>Running the environment\<close>

text \<open>
  \<open>env.step()\<close> pops the next event, moves the clock to its time and resumes what waits
  on it. It raises \<open>EmptySchedule\<close> on an empty queue, \<open>StopSimulation\<close> at the horizon
  and the exception of a process that failed; otherwise it returns normally.
\<close>

datatype signal = EmptySchedule | StopSimulation | Crash error

definition step :: "config \<Rightarrow> source \<Rightarrow> model \<Rightarrow> signal option \<times> model" where
  "step params g s =
     (case queue s of
        [] \<Rightarrow> (Some EmptySchedule, s)
      | (t, p, n, e) # q \<Rightarrow>
          (let s1 = s\<lparr>now := t, queue := q\<rparr> in
           case e of
             InitGenerate \<Rightarrow> (None, generate_requests params g s1)
           | InitFailures \<Rightarrow> (None, server_failures params g s1)
           | InitRequest rid \<Rightarrow> (None, process_request rid s1)
           | ArrivalTimeout rid \<Rightarrow> (None, generate_requests_resume params g rid s1)
           | Granted rid i a \<Rightarrow> (None, process_request_granted params g rid i a s1)
           | ProcessingTimeout rid i a \<Rightarrow> (None, process_request_done rid i a s1)
           | Release i \<Rightarrow> (None, trigger_put i s1)
           | FailureTimeout \<Rightarrow> (None, server_failures_select params g s1)
           | RecoveryTimeout i \<Rightarrow> (None, server_failures_recover params g i s1)
           | Terminated None \<Rightarrow> (None, s1)
           | Terminated (Some err) \<Rightarrow> (Some (Crash err), s1)
           | Until \<Rightarrow> (Some StopSimulation, s1)))"

text \<open>
  The loop \<open>while True: self.step()\<close> of \<open>env.run\<close>. Nothing bounds the number of events
  before the horizon (interarrival times may all be 0), so the loop is given fuel and
  \<open>None\<close> stands for a loop that has not ended within it.
\<close>

fun run_loop :: "config \<Rightarrow> source \<Rightarrow> nat \<Rightarrow> model \<Rightarrow> (signal \<times> model) option" where
  "run_loop params g 0 s = None"
| "run_loop params g (Suc fuel) s =
     (case step params g s of
        (Some sig, s') \<Rightarrow> Some (sig, s')
      | (None, s') \<Rightarrow> run_loop params g fuel s')"

text \<open>
  \<open>env.run(until=t)\<close>: the horizon is scheduled before all regular events of its time.
  The run returns at the horizon and raises what \<open>step\<close> raises otherwise.
\<close>

definition run :: "config \<Rightarrow> source \<Rightarrow> nat \<Rightarrow> real \<Rightarrow> model \<Rightarrow> ((error + unit) \<times> model) option" where
  "run params g fuel t s =
     (if t \<le> now s then
        Some (Inl (ValueError ''until must be > the current simulation time''), s)
      else
        (case run_loop params g fuel (schedule Until URGENT (t - now s) s) of
           None \<Rightarrow> None
         | Some (StopSimulation, s') \<Rightarrow> Some (Inr (), s')
         | Some (Crash err, s') \<Rightarrow> Some (Inl err, s')
         | Some (EmptySchedule, s') \<Rightarrow> Some (Inl RuntimeError, s')))"

text \<open>
  \<open>run_simulation\<close> of \<open>optim_app.py\<close>: a fresh environment and model, one run to the
  horizon, the metrics. The generator is the one of the process: the simulation starts
  at the position \<open>r\<close> and leaves the generator at the position it has reached.
\<close>

definition run_simulation :: "config \<Rightarrow> source \<Rightarrow> nat \<Rightarrow> real \<Rightarrow> nat \<Rightarrow> ((error + metrics) \<times> nat) option" where
  "run_simulation params g fuel simulation_time r =
     (case init params r of
        Inl err \<Rightarrow> Some (Inl err, r)
      | Inr s \<Rightarrow>
          (case run params g fuel simulation_time s of
             None \<Rightarrow> None
           | Some (Inl err, s') \<Rightarrow> Some (Inl err, rng s')
           | Some (Inr u, s') \<Rightarrow> Some (Inr (get_metrics s'), rng s')))"

section \<open>The calls of a caller\<close>

text \<open>
  What the caller of the model does with the environment, one call at a time: \<open>Step\<close> is
  one \<open>env.step()\<close>, \<open>Horizon t\<close> the scheduling of the horizon with which
  \<open>env.run(until=t)\<close> begins (nothing is scheduled for a \<open>t\<close> that is not in the future).
  Every state that a sequence of \<open>env.run\<close> calls passes through is the result of such a
  sequence of calls.
\<close>

datatype call = Step | Horizon real

fun advance :: "config \<Rightarrow> source \<Rightarrow> call list \<Rightarrow> model \<Rightarrow> model" where
  "advance params g [] s = s"
| "advance params g (Step # cs) s = advance params g cs (snd (step params g s))"
| "advance params g (Horizon t # cs) s =
     advance params g cs (if t \<le> now s then s else schedule Until URGENT (t - now s) s)"

section \<open>Example configurations\<close>

text \<open>
  Two servers; interarrival times normal around 2, all other durations \<open>custom\<close>, with
  the custom values \<open>[3]\<close>.
\<close>

definition example_params :: config where
  "example_params =
     \<lparr>num_servers = 2, server_processing_time = 1, server_processing_time_std = None,
      queue_timeout = 5, request_rate = 1 / 2, failure_rate = 1, recovery_rate = 1,
      request_rate_distribution = ''normal'', server_processing_time_distribution = ''custom'',
      failure_rate_distribution = ''custom'', recovery_time_distribution = ''custom'',
      custom_values = [3]\<rparr>"

text \<open>
  Scenario C of the specification: one server, processing times \<open>custom\<close> with the custom
  values \<open>[3]\<close>, failures far away (normal around 100).
\<close>

definition scenario_c :: config where
  "scenario_c =
     example_params\<lparr>num_servers := 1, failure_rate := 1 / 100,
                     failure_rate_distribution := ''normal''\<rparr>"

text \<open>
  One server, processing times of 1, and a first failure due at time 2.5, while the first
  request (which arrives at time 2) is being processed.
\<close>

definition busy_params :: config where
  "busy_params =
     example_params\<lparr>num_servers := 1, failure_rate := 2 / 5,
                     failure_rate_distribution := ''normal''\<rparr>"

text \<open>The first configuration with a single server.\<close>

definition one_server_params :: config where
  "one_server_params = example_params\<lparr>num_servers := 1\<rparr>"

text \<open>
  A configuration in which every value that the specification wants validated is invalid:
  no servers, rates and mean of 0 or less, a \<open>custom\<close> distribution with no custom values.
\<close>

definition invalid_params :: config where
  "invalid_params =
     \<lparr>num_servers = 0, server_processing_time = 0, server_processing_time_std = None,
      queue_timeout = 5, request_rate = 0, failure_rate = 0, recovery_rate = - 1,
      request_rate_distribution = ''custom'', server_processing_time_distribution = ''custom'',
      failure_rate_distribution = ''custom'', recovery_time_distribution = ''custom'',
      custom_values = []\<rparr>"

text \<open>A source whose variates are all 0.\<close>

definition zeros :: source where
  "zeros = (\<lambda>k. 0)"

text \<open>A source whose first six variates are 0 and whose later variates are 1/2.\<close>

definition two_phase :: source where
  "two_phase = (\<lambda>k. if k < 6 then 0 else 1 / 2)"

section \<open>Observations and invariants\<close>

text \<open>The events that are scheduled in a state, without their keys.\<close>

definition events_of :: "entry list \<Rightarrow> event multiset" where
  "events_of q = mset (map (\<lambda>(t, p, n, e). e) q)"

definition pending :: "model \<Rightarrow> event multiset" where
  "pending s = events_of (queue s)"

text \<open>The events on which a request handler waits, and those of the failure process.\<close>

fun handler_event :: "event \<Rightarrow> bool" where
  "handler_event (InitRequest rid) = True"
| "handler_event (Granted rid i a) = True"
| "handler_event (ProcessingTimeout rid i a) = True"
| "handler_event e = False"

fun failure_event :: "event \<Rightarrow> bool" where
  "failure_event InitFailures = True"
| "failure_event FailureTimeout = True"
| "failure_event (RecoveryTimeout i) = True"
| "failure_event e = False"

text \<open>The server that an event refers to.\<close>

fun server_of :: "event \<Rightarrow> nat option" where
  "server_of (Granted rid i a) = Some i"
| "server_of (ProcessingTimeout rid i a) = Some i"
| "server_of (Release i) = Some i"
| "server_of (RecoveryTimeout i) = Some i"
| "server_of e = None"

text \<open>
  The handlers that have been spawned and have not ended: those that wait on an event, and
  those whose request waits in the queue of a server.
\<close>

definition waiting :: "server list \<Rightarrow> int" where
  "waiting svs = sum_list (map (\<lambda>sv. int (length (put_queue sv))) svs)"

definition in_flight :: "model \<Rightarrow> int" where
  "in_flight s = int (size (filter_mset handler_event (pending s))) + waiting (servers s)"

text \<open>Every scheduled event refers to a server that exists.\<close>

definition inv_idx :: "model \<Rightarrow> bool" where
  "inv_idx s \<longleftrightarrow> (\<forall>e \<in># pending s. \<forall>i. server_of e = Some i \<longrightarrow> i < length (servers s))"

text \<open>Every handler that was spawned has completed, has been rejected, is in flight or has failed.\<close>

definition inv_count :: "model \<Rightarrow> bool" where
  "inv_count s \<longleftrightarrow> completed_requests s + failed_requests s + in_flight s \<le> spawned s"

text \<open>
  The arrival generator has either not run yet, and nothing has been counted, or it has
  counted one request more than it has spawned handlers.
\<close>

definition inv_gen :: "model \<Rightarrow> bool" where
  "inv_gen s \<longleftrightarrow>
     (if InitGenerate \<in># pending s
      then count (pending s) InitGenerate = 1 \<and> (\<forall>rid. ArrivalTimeout rid \<notin># pending s) \<and>
           total_requests s = 0 \<and> spawned s = 0
      else total_requests s = spawned s + 1)"

text \<open>The arrival generator is suspended at its \<open>yield\<close>.\<close>

definition suspended :: "model \<Rightarrow> bool" where
  "suspended s \<longleftrightarrow> (\<exists>rid. ArrivalTimeout rid \<in># pending s)"

text \<open>
  The failure process waits on at most one event. While it waits for the next failure all
  \<open>n\<close> servers are in service; while it waits for a recovery exactly the server it holds
  is out of service. A server is in service (Up) when its capacity is 1.
\<close>

definition up :: "server \<Rightarrow> bool" where
  "up sv \<longleftrightarrow> capacity sv = 1"

definition fail_pending :: "model \<Rightarrow> event multiset" where
  "fail_pending s = filter_mset failure_event (pending s)"

definition all_up :: "nat \<Rightarrow> model \<Rightarrow> bool" where
  "all_up n s \<longleftrightarrow>
     length (servers s) = n \<and> map capacity (servers s) = replicate n 1 \<and>
     available_servers s = int n"

definition one_down :: "nat \<Rightarrow> nat \<Rightarrow> model \<Rightarrow> bool" where
  "one_down n i s \<longleftrightarrow>
     length (servers s) = n \<and> i < n \<and> map capacity (servers s) = (replicate n 1)[i := 0] \<and>
     available_servers s = int n - 1"

definition inv_fail :: "nat \<Rightarrow> model \<Rightarrow> bool" where
  "inv_fail n s \<longleftrightarrow>
     (all_up n s \<and>
      (fail_pending s = {#} \<or> fail_pending s = {#InitFailures#} \<or>
       fail_pending s = {#FailureTimeout#})) \<or>
     (\<exists>i. one_down n i s \<and> (fail_pending s = {#} \<or> fail_pending s = {#RecoveryTimeout i#}))"

text \<open>The state in which the process-wide generator stands \<open>r\<close> positions further.\<close>

definition advance_rng :: "nat \<Rightarrow> model \<Rightarrow> model" where
  "advance_rng r s = s\<lparr>rng := rng s + r\<rparr>"

section \<open>Sampled durations are not negative\<close>

lemma expovariate_nonneg:
  assumes "0 < lambd" "0 \<le> g r" "g r < 1"
  shows "\<exists>d. fst (expovariate lambd g r) = Inr d \<and> 0 \<le> d"
proof -
  have "ln (1 - g r) \<le> 0" using assms by simp
  then have "0 \<le> - ln (1 - g r) / lambd" using assms(1) by (simp add: field_simps)
  then show ?thesis using assms(1) by (simp add: expovariate_def)
qed

lemma uniform_nonneg:
  assumes "0 \<le> a" "0 \<le> b" "0 \<le> g r" "g r < 1"
  shows "\<exists>d. fst (uniform a b g r) = Inr d \<and> 0 \<le> d"
proof -
  have "a + (b - a) * g r = a * (1 - g r) + b * g r" by (simp add: algebra_simps)
  moreover have "0 \<le> a * (1 - g r)" "0 \<le> b * g r" using assms by simp_all
  ultimately show ?thesis by (simp add: uniform_def)
qed

lemma normal_nonneg: "\<exists>d. fst (random_value ''normal'' kw g r) = Inr d \<and> 0 \<le> d"
  by (simp add: random_value_def gauss_def)

lemma choice_default:
  assumes "0 \<le> g r" "g r < 1"
  shows "choice [1::real] g r = (Inr 1, Suc r)"
proof -
  have "\<lfloor>g r\<rfloor> = 0" using assms by (simp add: floor_eq_iff)
  then show ?thesis by (simp add: choice_def)
qed

text \<open>
  C8. For each of the four supported distribution names and the keyword arguments that
  the model passes (those built from a positive rate, or those of the processing time
  with a positive mean; \<open>low\<close> is 0.1 in both), \<open>random_value\<close> returns a duration, and the
  duration is at least 0. A \<open>normal\<close> draw is clamped: the duration is the maximum of 0 and
  the draw \<open>mean + z * std\<close>. The duration is what the process hands to the event queue:
  the timeout is accepted and the process waits for it. The primitive variate is a value
  of \<open>random()\<close>, in \<open>[0, 1)\<close>; for \<open>normal\<close> it may be any real.
\<close>

theorem random_value_nonneg:
  assumes dist: "distribution \<in> {''exponential'', ''uniform'', ''normal'', ''custom''}"
    and draw: "distribution = ''normal'' \<or> (0 \<le> g r \<and> g r < 1)"
    and kw: "(0 < rate \<and> rate_kwargs rate = Inr kw) \<or>
             (0 < server_processing_time params \<and> kw = processing_kwargs params)"
  shows "\<exists>d. random_value distribution kw g r = (Inr d, Suc r) \<and> 0 \<le> d \<and>
             (distribution = ''normal'' \<longrightarrow>
                d = max 0 (kwargs_get (kw_mean kw) 0 + g r * kwargs_get (kw_std kw) 1)) \<and>
             draw_and_wait distribution (Inr kw) e g (s\<lparr>rng := r\<rparr>) =
               schedule e NORMAL d (s\<lparr>rng := Suc r\<rparr>)"
proof -
  have vals: "kw_values kw = None" and low: "kw_low kw = Some (1 / 10)"
    using kw by (auto simp: rate_kwargs_def py_div_def processing_kwargs_def split: if_splits)
  have high: "\<exists>h. kw_high kw = Some h \<and> 0 \<le> h"
    using kw by (auto simp: rate_kwargs_def py_div_def processing_kwargs_def split: if_splits)
  have rate: "0 < kwargs_get (kw_rate kw) 1"
    using kw
    by (auto simp: rate_kwargs_def py_div_def processing_kwargs_def kwargs_get_def
        split: if_splits)
  have sample: "\<exists>d. random_value distribution kw g r = (Inr d, Suc r) \<and> 0 \<le> d \<and>
             (distribution = ''normal'' \<longrightarrow>
                d = max 0 (kwargs_get (kw_mean kw) 0 + g r * kwargs_get (kw_std kw) 1))"
  proof -
    consider (e) "distribution = ''exponential''" | (u) "distribution = ''uniform''"
      | (n) "distribution = ''normal''" | (c) "distribution = ''custom''"
      using dist by auto
    then show ?thesis
    proof cases
      case e
      then have "0 \<le> g r" "g r < 1" using draw by auto
      then have "\<exists>d. fst (expovariate (kwargs_get (kw_rate kw) 1) g r) = Inr d \<and> 0 \<le> d"
        using rate by (intro expovariate_nonneg)
      moreover have "snd (expovariate (kwargs_get (kw_rate kw) 1) g r) = Suc r"
        by (simp add: expovariate_def)
      ultimately show ?thesis using e by (auto simp: random_value_def prod_eq_iff)
    next
      case u
      then have d: "0 \<le> g r" "g r < 1" using draw by auto
      from high obtain h where h: "kw_high kw = Some h" "0 \<le> h" by auto
      have "\<exists>d. fst (uniform (1 / 10) h g r) = Inr d \<and> 0 \<le> d"
        by (rule uniform_nonneg) (use h d in simp_all)
      moreover have "snd (uniform (1 / 10) h g r) = Suc r" by (simp add: uniform_def)
      ultimately show ?thesis using u low h
        by (auto simp: random_value_def kwargs_get_def prod_eq_iff)
    next
      case n
      then show ?thesis by (simp add: random_value_def gauss_def)
    next
      case c
      then have d: "0 \<le> g r" "g r < 1" using draw by auto
      show ?thesis
        using c vals d choice_default [of g r] by (simp add: random_value_def kwargs_get_def)
    qed
  qed
  then obtain d where d: "random_value distribution kw g r = (Inr d, Suc r)" "0 \<le> d"
    "distribution = ''normal'' \<longrightarrow>
       d = max 0 (kwargs_get (kw_mean kw) 0 + g r * kwargs_get (kw_std kw) 1)"
    by blast
  have "draw_and_wait distribution (Inr kw) e g (s\<lparr>rng := r\<rparr>) =
          schedule e NORMAL d (s\<lparr>rng := Suc r\<rparr>)"
    using d(1,2) by (simp add: draw_and_wait_def timeout_def)
  then show ?thesis using d by blast
qed

theorem random_value_nonneg_witness:
  "(''normal'' \<in> {''exponential'', ''uniform'', ''normal'', ''custom''} \<and>
    0 < server_processing_time example_params \<and>
    kwargs_get (kw_mean (processing_kwargs example_params)) 0 +
      (\<lambda>k. - 20) (0::nat) * kwargs_get (kw_std (processing_kwargs example_params)) 1
      = (- 1 :: real) \<and>
    (\<exists>d. random_value ''normal'' (processing_kwargs example_params) (\<lambda>k. - 20) 0
            = (Inr d, Suc 0) \<and>
         0 \<le> d \<and> d = 0 \<and>
         draw_and_wait ''normal'' (Inr (processing_kwargs example_params)) Until (\<lambda>k. - 20)
           (projr (init example_params 0)\<lparr>rng := 0\<rparr>) =
         schedule Until NORMAL d (projr (init example_params 0)\<lparr>rng := Suc 0\<rparr>))) \<and>
   (''uniform'' \<in> {''exponential'', ''uniform'', ''normal'', ''custom''} \<and>
    (0::real) \<le> 1 / 2 \<and> (1 / 2 :: real) < 1 \<and>
    (\<exists>d. random_value ''uniform'' (processing_kwargs example_params) (\<lambda>k. 1 / 2) 0
            = (Inr d, Suc 0) \<and>
         0 \<le> d))"
proof
  show "''normal'' \<in> {''exponential'', ''uniform'', ''normal'', ''custom''} \<and>
    0 < server_processing_time example_params \<and>
    kwargs_get (kw_mean (processing_kwargs example_params)) 0 +
      (\<lambda>k. - 20) (0::nat) * kwargs_get (kw_std (processing_kwargs example_params)) 1
      = (- 1 :: real) \<and>
    (\<exists>d. random_value ''normal'' (processing_kwargs example_params) (\<lambda>k. - 20) 0
            = (Inr d, Suc 0) \<and>
         0 \<le> d \<and> d = 0 \<and>
         draw_and_wait ''normal'' (Inr (processing_kwargs example_params)) Until (\<lambda>k. - 20)
           (projr (init example_params 0)\<lparr>rng := 0\<rparr>) =
         schedule Until NORMAL d (projr (init example_params 0)\<lparr>rng := Suc 0\<rparr>))"
    using random_value_nonneg
      [where distribution = "''normal''" and g = "\<lambda>k. - 20" and r = 0 and rate = 0
         and kw = "processing_kwargs example_params" and params = example_params
         and e = Until and s = "projr (init example_params 0)"]
    by (simp add: example_params_def processing_kwargs_def kwargs_get_def)
  show "''uniform'' \<in> {''exponential'', ''uniform'', ''normal'', ''custom''} \<and>
    (0::real) \<le> 1 / 2 \<and> (1 / 2 :: real) < 1 \<and>
    (\<exists>d. random_value ''uniform'' (processing_kwargs example_params) (\<lambda>k. 1 / 2) 0
            = (Inr d, Suc 0) \<and>
         0 \<le> d)"
    using random_value_nonneg
      [where distribution = "''uniform''" and g = "\<lambda>k. 1 / 2" and r = 0 and rate = 0
         and kw = "processing_kwargs example_params" and params = example_params
         and e = Until and s = "projr (init example_params 0)"]
    by (auto simp: example_params_def)
qed

section \<open>Concrete runs\<close>

text \<open>
  The definitions are evaluated by rewriting. The runs below start from the initial state of
  an example configuration, with the source of zeros.
\<close>

lemmas eval_defs = init_def schedule_def finish_def fail_def timeout_def trigger_put_def request_def
  release_def rate_kwargs_def processing_kwargs_def draw_and_wait_def generate_requests_def
  generate_requests_resume_def process_request_def process_request_granted_def
  process_request_done_def server_failures_def server_failures_select_def
  server_failures_recover_def get_metrics_def step_def run_def run_simulation_def
  random_value_def expovariate_def uniform_def gauss_def choice_def kwargs_get_def py_div_def
  example_params_def scenario_c_def busy_params_def one_server_params_def invalid_params_def
  two_phase_def zeros_def Let_def

lemma replicate_2: "replicate 2 x = [x, x]"
  by (simp add: numeral_2_eq_2)

lemma init_projr: "init params r = Inr (projr (init params r))"
  by (simp add: init_def)

lemma step_pair: "step params g s = (fst (step params g s), snd (step params g s))"
  by simp

lemma scenario_c_trace:
  "advance scenario_c zeros [Step, Step, Step, Step, Step, Step] (projr (init scenario_c 0)) =
   \<lparr>now = 3,
    queue = [(3, 1, 8, Release 0), (3, 1, 9, Terminated None), (4, 1, 5, ArrivalTimeout 2),
             (100, 1, 3, FailureTimeout)],
    eid = 10, servers = [\<lparr>capacity = 1, users = [], put_queue = []\<rparr>],
    total_requests = 2, completed_requests = 1, failed_requests = 0,
    latency = [1], available_servers = 1, rng = 4, spawned = 1\<rparr>"
  by (simp add: eval_defs replicate_2)

lemma example_trace_2:
  "advance example_params zeros [Step, Step] (projr (init example_params 0)) =
   \<lparr>now = 0, queue = [(1, 1, 3, FailureTimeout), (2, 1, 2, ArrivalTimeout 1)], eid = 4,
    servers = [\<lparr>capacity = 1, users = [], put_queue = []\<rparr>,
               \<lparr>capacity = 1, users = [], put_queue = []\<rparr>],
    total_requests = 1, completed_requests = 0, failed_requests = 0,
    latency = [], available_servers = 2, rng = 2, spawned = 0\<rparr>"
  by (simp add: eval_defs replicate_2)

lemma example_trace_3:
  "advance example_params zeros [Step, Step, Step] (projr (init example_params 0)) =
   \<lparr>now = 1, queue = [(2, 1, 2, ArrivalTimeout 1), (2, 1, 4, RecoveryTimeout 0)], eid = 5,
    servers = [\<lparr>capacity = 0, users = [], put_queue = []\<rparr>,
               \<lparr>capacity = 1, users = [], put_queue = []\<rparr>],
    total_requests = 1, completed_requests = 0, failed_requests = 0,
    latency = [], available_servers = 1, rng = 4, spawned = 0\<rparr>"
  by (simp add: eval_defs replicate_2)

lemma busy_trace_5:
  "advance busy_params zeros [Step, Step, Step, Step, Step] (projr (init busy_params 0)) =
   \<lparr>now = 2,
    queue = [(5 / 2, 1, 3, FailureTimeout), (3, 1, 7, ProcessingTimeout 1 0 2),
             (4, 1, 5, ArrivalTimeout 2)],
    eid = 8, servers = [\<lparr>capacity = 1, users = [1], put_queue = []\<rparr>],
    total_requests = 2, completed_requests = 0, failed_requests = 0,
    latency = [], available_servers = 1, rng = 4, spawned = 1\<rparr>"
  by (simp add: eval_defs replicate_2)

lemma example_trace_4:
  "advance example_params zeros [Step, Step, Step, Step] (projr (init example_params 0)) =
   \<lparr>now = 2,
    queue = [(2, 0, 5, InitRequest 1), (2, 1, 4, RecoveryTimeout 0), (4, 1, 6, ArrivalTimeout 2)],
    eid = 7,
    servers = [\<lparr>capacity = 0, users = [], put_queue = []\<rparr>,
               \<lparr>capacity = 1, users = [], put_queue = []\<rparr>],
    total_requests = 2, completed_requests = 0, failed_requests = 0,
    latency = [], available_servers = 1, rng = 5, spawned = 1\<rparr>"
  by (simp add: eval_defs replicate_2)

lemma one_server_trace_4:
  "advance one_server_params zeros [Step, Step, Step, Step] (projr (init one_server_params 0)) =
   \<lparr>now = 2,
    queue = [(2, 0, 5, InitRequest 1), (2, 1, 4, RecoveryTimeout 0), (4, 1, 6, ArrivalTimeout 2)],
    eid = 7, servers = [\<lparr>capacity = 0, users = [], put_queue = []\<rparr>],
    total_requests = 2, completed_requests = 0, failed_requests = 0,
    latency = [], available_servers = 0, rng = 5, spawned = 1\<rparr>"
  by (simp add: eval_defs)

section \<open>Construction\<close>

text \<open>
  C2, as stated, fails: the constructor accepts a configuration in which the number of
  servers, the mean processing time and all rates are 0 or less and in which a \<open>custom\<close>
  distribution comes with no custom values. It returns a model; the run of that model
  then raises \<open>ZeroDivisionError\<close> at its third event.
\<close>

theorem construction_accepts_invalid_params:
  "num_servers invalid_params \<le> 0 \<and> server_processing_time invalid_params \<le> 0 \<and>
   request_rate invalid_params \<le> 0 \<and> failure_rate invalid_params \<le> 0 \<and>
   recovery_rate invalid_params \<le> 0 \<and>
   request_rate_distribution invalid_params = ''custom'' \<and> custom_values invalid_params = [] \<and>
   init invalid_params 0 =
     Inr \<lparr>now = 0, queue = [(0, 0, 0, InitGenerate), (0, 0, 1, InitFailures)], eid = 2,
          servers = [], total_requests = 0, completed_requests = 0, failed_requests = 0,
          latency = [], available_servers = 0, rng = 0, spawned = 0\<rparr> \<and>
   run_simulation invalid_params zeros 3 1 0 = Some (Inl ZeroDivisionError, 0)"
  by (simp add: eval_defs eval_nat_numeral)

text \<open>
  What a process schedules when it draws a duration and waits: its next event after a
  delay of 0 or more, or at once the event of its failure.
\<close>

lemma draw_and_wait_delay:
  obtains d r' x where "0 \<le> d"
    "draw_and_wait dn kws e g s = schedule x NORMAL d (s\<lparr>rng := r'\<rparr>)"
proof (cases kws)
  case (Inl err)
  then have "draw_and_wait dn kws e g s =
      schedule (Terminated (Some err)) NORMAL 0 (s\<lparr>rng := rng s\<rparr>)"
    by (simp add: draw_and_wait_def fail_def)
  then show thesis using that [of 0] by blast
next
  case (Inr kw)
  obtain res r where rv: "random_value dn kw g (rng s) = (res, r)"
    by (cases "random_value dn kw g (rng s)")
  show thesis
  proof (cases res)
    case (Inl err)
    then have "draw_and_wait dn kws e g s =
        schedule (Terminated (Some err)) NORMAL 0 (s\<lparr>rng := r\<rparr>)"
      using Inr rv by (simp add: draw_and_wait_def fail_def)
    then show thesis using that [of 0] by blast
  next
    case (Inr d)
    show thesis
    proof (cases "d < 0")
      case True
      then have "draw_and_wait dn kws e g s =
          schedule (Terminated (Some (ValueError ''Negative delay''))) NORMAL 0 (s\<lparr>rng := r\<rparr>)"
        using Inr \<open>kws = Inr kw\<close> rv by (simp add: draw_and_wait_def fail_def timeout_def)
      then show thesis using that [of 0] by blast
    next
      case False
      then have "draw_and_wait dn kws e g s = schedule e NORMAL d (s\<lparr>rng := r\<rparr>)"
        using Inr \<open>kws = Inr kw\<close> rv by (simp add: draw_and_wait_def timeout_def)
      then show thesis using that [of d] False by force
    qed
  qed
qed

text \<open>
  A request rate of 0 passes the constructor. The first run of the model raises
  \<open>ZeroDivisionError\<close>, whatever the rest of the configuration, the source and the horizon:
  the arrival generator fails at its first turn, and the event of its failure is the third
  event of the run.
\<close>

lemma zero_request_rate_raises_at_run:
  assumes "request_rate params = 0" "0 < t"
  shows "\<exists>r'. run_simulation params g (Suc (Suc (Suc fuel))) t r =
              Some (Inl ZeroDivisionError, r')"
proof -
  let ?s0 = "projr (init params r)"
  let ?sv = "replicate (nat (num_servers params)) \<lparr>capacity = 1, users = [], put_queue = []\<rparr>"
  let ?u = "schedule Until URGENT (t - now ?s0) ?s0"
  let ?dead = "(0, 1, 3, Terminated (Some ZeroDivisionError))"
  have init: "init params r = Inr ?s0" by (simp add: init_def)
  have u: "?u = \<lparr>now = 0, queue = [(0, 0, 0, InitGenerate), (0, 0, 1, InitFailures), (t, 0, 2, Until)],
      eid = 3, servers = ?sv, total_requests = 0, completed_requests = 0, failed_requests = 0,
      latency = [], available_servers = num_servers params, rng = r, spawned = 0\<rparr>"
    using assms(2) by (simp add: init_def schedule_def)
  let ?s1 = "\<lparr>now = 0, queue = [(0, 0, 1, InitFailures), ?dead, (t, 0, 2, Until)],
      eid = 4, servers = ?sv, total_requests = 1, completed_requests = 0, failed_requests = 0,
      latency = [], available_servers = num_servers params, rng = r, spawned = 0\<rparr>"
  have 1: "step params g ?u = (None, ?s1)"
    unfolding u using assms
    by (simp add: step_def generate_requests_def draw_and_wait_def rate_kwargs_def py_div_def
        fail_def schedule_def)
  let ?p = "?s1\<lparr>now := 0, queue := [?dead, (t, 0, 2, Until)]\<rparr>"
  have 2: "step params g ?s1 = (None, server_failures params g ?p)"
    by (simp add: step_def)
  obtain d r' x where d: "0 \<le> d"
    and sf: "server_failures params g ?p = schedule x NORMAL d (?p\<lparr>rng := r'\<rparr>)"
    unfolding server_failures_def by (rule draw_and_wait_delay)
  have "\<not> entry_less (0 + d, 1, 4, x) ?dead" using d by simp
  then have q: "queue (server_failures params g ?p) =
      ?dead # heappush (d, 1, 4, x) [(t, 0, 2, Until)]"
    unfolding sf by (simp add: schedule_def)
  let ?s2 = "server_failures params g ?p"
  have 3: "step params g ?s2 =
      (Some (Crash ZeroDivisionError),
       ?s2\<lparr>now := 0, queue := heappush (d, 1, 4, x) [(t, 0, 2, Until)]\<rparr>)"
    using q by (simp add: step_def)
  have "run_loop params g (Suc (Suc (Suc fuel))) ?u =
      Some (Crash ZeroDivisionError,
        ?s2\<lparr>now := 0, queue := heappush (d, 1, 4, x) [(t, 0, 2, Until)]\<rparr>)"
    using 1 2 3 by simp
  moreover have "\<not> t \<le> now ?s0" using assms(2) by (simp add: init_def schedule_def)
  ultimately have "run params g (Suc (Suc (Suc fuel))) t ?s0 =
      Some (Inl ZeroDivisionError,
        ?s2\<lparr>now := 0, queue := heappush (d, 1, 4, x) [(t, 0, 2, Until)]\<rparr>)"
    by (simp add: run_def)
  then show ?thesis
    unfolding run_simulation_def by (subst init) simp
qed

text \<open>
  C2, amended. The constructor raises nothing and validates nothing. For every
  configuration that has all its keys, with values of their types, it returns a model
  that is fully initialised: the servers (as many as
  \<open>num_servers\<close>, none for a negative number) in service and idle, the counters 0,
  \<open>available_servers\<close> equal to \<open>num_servers\<close>, the two processes scheduled. Of the
  configuration it reads \<open>num_servers\<close> only: the mean, the rates, the distribution names and
  the custom values have no effect on what is built. A request rate of 0 is detected when
  the model is first run, by the \<open>ZeroDivisionError\<close> that the run raises.
\<close>

theorem construction_validates_nothing:
  "(\<exists>s. init params r = Inr s \<and>
        servers s =
          replicate (nat (num_servers params)) \<lparr>capacity = 1, users = [], put_queue = []\<rparr> \<and>
        total_requests s = 0 \<and> completed_requests s = 0 \<and> failed_requests s = 0 \<and>
        latency s = [] \<and> available_servers s = num_servers params \<and>
        queue s = [(0, 0, 0, InitGenerate), (0, 0, 1, InitFailures)]) \<and>
   init (params\<lparr>server_processing_time := spt, request_rate := rr, failure_rate := fr,
                 recovery_rate := cr, request_rate_distribution := da,
                 server_processing_time_distribution := db, failure_rate_distribution := dc,
                 recovery_time_distribution := dd, custom_values := vs\<rparr>) r = init params r \<and>
   (request_rate params = 0 \<and> 0 < t \<longrightarrow>
      (\<exists>r'. run_simulation params g (Suc (Suc (Suc fuel))) t r =
              Some (Inl ZeroDivisionError, r')))"
proof (intro conjI impI)
  show "\<exists>s. init params r = Inr s \<and>
        servers s =
          replicate (nat (num_servers params)) \<lparr>capacity = 1, users = [], put_queue = []\<rparr> \<and>
        total_requests s = 0 \<and> completed_requests s = 0 \<and> failed_requests s = 0 \<and>
        latency s = [] \<and> available_servers s = num_servers params \<and>
        queue s = [(0, 0, 0, InitGenerate), (0, 0, 1, InitFailures)]"
    by (simp add: init_def schedule_def)
  show "init (params\<lparr>server_processing_time := spt, request_rate := rr, failure_rate := fr,
                 recovery_rate := cr, request_rate_distribution := da,
                 server_processing_time_distribution := db, failure_rate_distribution := dc,
                 recovery_time_distribution := dd, custom_values := vs\<rparr>) r = init params r"
    by (simp add: init_def)
next
  assume "request_rate params = 0 \<and> 0 < t"
  then show "\<exists>r'. run_simulation params g (Suc (Suc (Suc fuel))) t r =
              Some (Inl ZeroDivisionError, r')"
    by (intro zero_request_rate_raises_at_run) simp_all
qed

theorem construction_validates_nothing_witness:
  "request_rate invalid_params = 0 \<and> (0::real) < 1 \<and>
   (\<exists>s. init invalid_params 0 = Inr s \<and> servers s = [] \<and> available_servers s = 0) \<and>
   (\<exists>r'. run_simulation invalid_params zeros (Suc (Suc (Suc 0))) 1 0 =
           Some (Inl ZeroDivisionError, r'))"
proof -
  note inst = construction_validates_nothing
    [where params = invalid_params and r = 0 and t = 1 and g = zeros and fuel = 0
       and spt = 0 and rr = 0 and fr = 0 and cr = 0 and da = "[]" and db = "[]"
       and dc = "[]" and dd = "[]" and vs = "[]"]
  have rate: "request_rate invalid_params = 0" and n: "num_servers invalid_params = 0"
    by (simp_all add: invalid_params_def)
  from inst obtain s where "init invalid_params 0 = Inr s"
    "servers s = replicate (nat (num_servers invalid_params))
       \<lparr>capacity = 1, users = [], put_queue = []\<rparr>"
    "available_servers s = num_servers invalid_params"
    by blast
  then have "\<exists>s. init invalid_params 0 = Inr s \<and> servers s = [] \<and> available_servers s = 0"
    using n by simp
  moreover from inst rate
  have "\<exists>r'. run_simulation invalid_params zeros (Suc (Suc (Suc 0))) 1 0 =
           Some (Inl ZeroDivisionError, r')"
    by simp
  ultimately show ?thesis using rate by simp
qed

section \<open>The custom distribution\<close>

text \<open>
  C3: the code departs from it. In scenario C the processing times are \<open>custom\<close> and the
  custom values are \<open>[3]\<close>, yet the request that is completed has a latency of 1: no
  caller of \<open>random_value\<close> passes \<open>values\<close>, so the draw is made from the default \<open>[1]\<close>.
\<close>

theorem scenario_c_latency:
  "server_processing_time_distribution scenario_c = ''custom'' \<and>
   custom_values scenario_c = [3] \<and>
   run_simulation scenario_c zeros 12 (7 / 2) 0 =
     Some (Inr \<lparr>m_total_requests = 2, m_completed_requests = 1, m_failed_requests = 0,
                 m_avg_latency = 1, m_available_servers = 1\<rparr>, 4)"
  by (simp add: eval_defs eval_nat_numeral)

section \<open>The scan of the request handler\<close>

text \<open>
  C1: the code departs from it. After four events of the first example, server 0 is out of
  service and idle, server 1 is in service and idle, and the handler of request 1 is about
  to start. The scan looks at the users only: it selects server 0, and the request waits in
  the queue of that server. It is neither served by server 1 nor rejected.
\<close>

theorem handler_selects_down_server:
  "(let s = advance example_params zeros [Step, Step, Step, Step] (projr (init example_params 0));
        s' = snd (step example_params zeros s)
    in queue s = [(2, 0, 5, InitRequest 1), (2, 1, 4, RecoveryTimeout 0),
                  (4, 1, 6, ArrivalTimeout 2)] \<and>
       servers s = [\<lparr>capacity = 0, users = [], put_queue = []\<rparr>,
                    \<lparr>capacity = 1, users = [], put_queue = []\<rparr>] \<and>
       find_free (servers s) 0 = Some 0 \<and>
       servers s' = [\<lparr>capacity = 0, users = [], put_queue = [(1, 2)]\<rparr>,
                     \<lparr>capacity = 1, users = [], put_queue = []\<rparr>] \<and>
       queue s' = [(2, 1, 4, RecoveryTimeout 0), (4, 1, 6, ArrivalTimeout 2)] \<and>
       failed_requests s' = 0 \<and> completed_requests s' = 0)"
  unfolding example_trace_4 by (simp add: eval_defs)

text \<open>
  C7: the code departs from its second half. With a single server, out of service when
  request 1 arrives, no server is available; the request is not rejected but queued on
  the server, and at the horizon 10 it still waits, with three later requests, although
  the \<open>queue_timeout\<close> of 5 has long passed.
\<close>

theorem request_waits_on_down_server:
  "(let s = advance one_server_params zeros [Step, Step, Step, Step]
              (projr (init one_server_params 0));
        s' = snd (step one_server_params zeros s)
    in queue s = [(2, 0, 5, InitRequest 1), (2, 1, 4, RecoveryTimeout 0),
                  (4, 1, 6, ArrivalTimeout 2)] \<and>
       servers s = [\<lparr>capacity = 0, users = [], put_queue = []\<rparr>] \<and>
       servers s' = [\<lparr>capacity = 0, users = [], put_queue = [(1, 2)]\<rparr>] \<and>
       queue s' = [(2, 1, 4, RecoveryTimeout 0), (4, 1, 6, ArrivalTimeout 2)] \<and>
       failed_requests s' = 0) \<and>
   queue_timeout one_server_params = 5 \<and>
   run one_server_params zeros 30 10 (projr (init one_server_params 0)) =
     Some (Inr (),
       \<lparr>now = 10, queue = [(10, 1, 19, ArrivalTimeout 5), (10, 1, 21, RecoveryTimeout 0)],
        eid = 22,
        servers = [\<lparr>capacity = 0, users = [], put_queue = [(1, 2), (2, 4), (3, 6), (4, 8)]\<rparr>],
        total_requests = 5, completed_requests = 0, failed_requests = 0,
        latency = [], available_servers = 0, rng = 20, spawned = 4\<rparr>)"
  unfolding one_server_trace_4 by (simp add: eval_defs eval_nat_numeral)

text \<open>
  No function of the model reads \<open>queue_timeout\<close>: two configurations that differ in it
  only give the same steps, the same runs and the same snapshots.
\<close>

lemma queue_timeout_functions:
  "generate_requests (params\<lparr>queue_timeout := q\<rparr>) g s = generate_requests params g s"
  "generate_requests_resume (params\<lparr>queue_timeout := q\<rparr>) g rid s =
     generate_requests_resume params g rid s"
  "process_request_granted (params\<lparr>queue_timeout := q\<rparr>) g rid i a s =
     process_request_granted params g rid i a s"
  "server_failures (params\<lparr>queue_timeout := q\<rparr>) g s = server_failures params g s"
  "server_failures_select (params\<lparr>queue_timeout := q\<rparr>) g s = server_failures_select params g s"
  "server_failures_recover (params\<lparr>queue_timeout := q\<rparr>) g i s =
     server_failures_recover params g i s"
  by (simp_all add: generate_requests_def generate_requests_resume_def
      process_request_granted_def processing_kwargs_def server_failures_def
      server_failures_select_def server_failures_recover_def
      cong: prod.case_cong sum.case_cong if_cong)

lemma step_queue_timeout:
  "step (params\<lparr>queue_timeout := q\<rparr>) g s = step params g s"
  by (simp add: step_def queue_timeout_functions
      cong: list.case_cong prod.case_cong event.case_cong)

lemma run_loop_queue_timeout:
  "run_loop (params\<lparr>queue_timeout := q\<rparr>) g fuel s = run_loop params g fuel s"
  by (induction fuel arbitrary: s)
    (simp_all add: step_queue_timeout cong: prod.case_cong option.case_cong)

lemma queue_timeout_not_consulted:
  "run_simulation (params\<lparr>queue_timeout := q\<rparr>) g fuel t r = run_simulation params g fuel t r"
  by (simp add: run_simulation_def run_def run_loop_queue_timeout init_def)

section \<open>Invariants of the simulation\<close>

subsection \<open>The queue and the primitives of the library\<close>

lemma events_of_heappush [simp]:
  "events_of (heappush x q) = add_mset (snd (snd (snd x))) (events_of q)"
  by (induction q) (auto simp: events_of_def split: prod.splits)

lemma events_of_Cons [simp]: "events_of ((t, p, n, e) # q) = add_mset e (events_of q)"
  by (simp add: events_of_def)

lemma events_of_Nil [simp]: "events_of [] = {#}"
  by (simp add: events_of_def)

lemma pending_queue: "queue s = (t, p, n, e) # q \<Longrightarrow> pending s = add_mset e (events_of q)"
  by (simp add: pending_def)

lemma pending_schedule [simp]: "pending (schedule e p d s) = add_mset e (pending s)"
  by (simp add: pending_def schedule_def)

lemma schedule_fields [simp]:
  "now (schedule e p d s) = now s"
  "servers (schedule e p d s) = servers s"
  "total_requests (schedule e p d s) = total_requests s"
  "completed_requests (schedule e p d s) = completed_requests s"
  "failed_requests (schedule e p d s) = failed_requests s"
  "latency (schedule e p d s) = latency s"
  "available_servers (schedule e p d s) = available_servers s"
  "rng (schedule e p d s) = rng s"
  "spawned (schedule e p d s) = spawned s"
  by (simp_all add: schedule_def)

lemma pending_updates [simp]:
  "pending (s\<lparr>now := t\<rparr>) = pending s"
  "pending (s\<lparr>queue := q\<rparr>) = events_of q"
  "pending (s\<lparr>servers := svs\<rparr>) = pending s"
  "pending (s\<lparr>total_requests := k\<rparr>) = pending s"
  "pending (s\<lparr>completed_requests := k\<rparr>) = pending s"
  "pending (s\<lparr>failed_requests := k\<rparr>) = pending s"
  "pending (s\<lparr>latency := l\<rparr>) = pending s"
  "pending (s\<lparr>available_servers := k\<rparr>) = pending s"
  "pending (s\<lparr>rng := r\<rparr>) = pending s"
  "pending (s\<lparr>spawned := k\<rparr>) = pending s"
  by (simp_all add: pending_def)

lemma draw_and_wait_cases:
  obtains (wait) d r where "draw_and_wait dn kws e g s = schedule e NORMAL d (s\<lparr>rng := r\<rparr>)"
  | (fail) err r where
      "draw_and_wait dn kws e g s = schedule (Terminated (Some err)) NORMAL 0 (s\<lparr>rng := r\<rparr>)"
proof (cases kws)
  case (Inl err)
  then have "draw_and_wait dn kws e g s = schedule (Terminated (Some err)) NORMAL 0 (s\<lparr>rng := rng s\<rparr>)"
    by (simp add: draw_and_wait_def fail_def)
  then show thesis by (rule fail)
next
  case (Inr kw)
  obtain res r where rv: "random_value dn kw g (rng s) = (res, r)" by (cases "random_value dn kw g (rng s)")
  show thesis
  proof (cases res)
    case (Inl err)
    then have "draw_and_wait dn kws e g s = schedule (Terminated (Some err)) NORMAL 0 (s\<lparr>rng := r\<rparr>)"
      using Inr rv by (simp add: draw_and_wait_def fail_def)
    then show thesis by (rule fail)
  next
    case (Inr d)
    show thesis
    proof (cases "d < 0")
      case True
      then have "draw_and_wait dn kws e g s =
          schedule (Terminated (Some (ValueError ''Negative delay''))) NORMAL 0 (s\<lparr>rng := r\<rparr>)"
        using Inr \<open>kws = Inr kw\<close> rv by (simp add: draw_and_wait_def fail_def timeout_def)
      then show thesis by (rule fail)
    next
      case False
      then have "draw_and_wait dn kws e g s = schedule e NORMAL d (s\<lparr>rng := r\<rparr>)"
        using Inr \<open>kws = Inr kw\<close> rv by (simp add: draw_and_wait_def timeout_def)
      then show thesis by (rule wait)
    qed
  qed
qed

lemma draw_and_wait_fields [simp]:
  "now (draw_and_wait dn kws e g s) = now s"
  "servers (draw_and_wait dn kws e g s) = servers s"
  "total_requests (draw_and_wait dn kws e g s) = total_requests s"
  "completed_requests (draw_and_wait dn kws e g s) = completed_requests s"
  "failed_requests (draw_and_wait dn kws e g s) = failed_requests s"
  "latency (draw_and_wait dn kws e g s) = latency s"
  "available_servers (draw_and_wait dn kws e g s) = available_servers s"
  "spawned (draw_and_wait dn kws e g s) = spawned s"
  by (rule draw_and_wait_cases [of dn kws e g s]; simp)+

lemmas handler_defs = process_request_def process_request_granted_def process_request_done_def
  request_def release_def trigger_put_def finish_def fail_def Let_def

lemma choice_upt: "choice [0..<n] g r = (Inr i, r') \<Longrightarrow> i < n"
  by (auto simp: choice_def Let_def split: if_splits)

lemma find_free_Some:
  "find_free svs k = Some i \<Longrightarrow> k \<le> i \<and> i - k < length svs \<and> users (svs ! (i - k)) = []"
proof (induction svs arbitrary: k)
  case Nil
  then show ?case by simp
next
  case (Cons a svs)
  show ?case
  proof (cases "users a = []")
    case True
    with Cons.prems show ?thesis by simp
  next
    case False
    with Cons.prems have "find_free svs (Suc k) = Some i" by simp
    from Cons.IH [OF this] show ?thesis by (auto simp: Suc_diff_Suc nth_Cons')
  qed
qed

lemma find_free_range: "find_free svs 0 = Some i \<Longrightarrow> i < length svs"
  using find_free_Some [of svs 0 i] by simp

lemma length_snoc_Cons: "xs @ [y] = z # zs \<Longrightarrow> length zs = length xs"
  by (drule arg_cong [where f = length]) simp

subsection \<open>The arrival generator\<close>

lemma inv_gen_updates [simp]:
  "inv_gen (s\<lparr>now := t\<rparr>) = inv_gen s"
  "inv_gen (s\<lparr>servers := svs\<rparr>) = inv_gen s"
  "inv_gen (s\<lparr>completed_requests := k\<rparr>) = inv_gen s"
  "inv_gen (s\<lparr>failed_requests := k\<rparr>) = inv_gen s"
  "inv_gen (s\<lparr>latency := l\<rparr>) = inv_gen s"
  "inv_gen (s\<lparr>available_servers := k\<rparr>) = inv_gen s"
  "inv_gen (s\<lparr>rng := r\<rparr>) = inv_gen s"
  by (simp_all add: inv_gen_def)

lemma inv_gen_schedule [simp]:
  "e \<noteq> InitGenerate \<Longrightarrow> (\<forall>rid. e \<noteq> ArrivalTimeout rid) \<Longrightarrow>
   inv_gen (schedule e p d s) = inv_gen s"
  by (auto simp: inv_gen_def)

lemma inv_gen_draw_and_wait [simp]:
  assumes "e \<noteq> InitGenerate" "\<forall>rid. e \<noteq> ArrivalTimeout rid"
  shows "inv_gen (draw_and_wait dn kws e g s) = inv_gen s"
  by (rule draw_and_wait_cases [of dn kws e g s]) (use assms in simp_all)

lemma inv_gen_generate:
  assumes "InitGenerate \<notin># pending s" "total_requests s = spawned s"
  shows "inv_gen (generate_requests params g s)"
  unfolding generate_requests_def Let_def
  by (rule draw_and_wait_cases [of "request_rate_distribution params" "rate_kwargs (request_rate params)"
        "ArrivalTimeout (total_requests s + 1)" g "s\<lparr>total_requests := total_requests s + 1\<rparr>"])
     (use assms in \<open>simp_all add: inv_gen_def\<close>)

lemma inv_gen_pop:
  assumes "queue s = (t, p, n, e) # q" "e \<noteq> InitGenerate" "inv_gen s"
  shows "inv_gen (s\<lparr>now := t, queue := q\<rparr>)"
  using assms by (auto simp: inv_gen_def pending_def split: if_splits)

lemma inv_gen_step:
  assumes "inv_gen s"
  shows "inv_gen (snd (step params g s))"
proof (cases "queue s")
  case Nil
  then show ?thesis using assms by (simp add: step_def)
next
  case (Cons x q)
  obtain t p n e where x: "x = (t, p, n, e)" by (cases x)
  note qs = Cons [unfolded x]
  note pq = pending_queue [OF qs]
  show ?thesis
  proof (cases "e = InitGenerate \<or> (\<exists>rid. e = ArrivalTimeout rid)")
    case True
    then show ?thesis
    proof
      assume e: "e = InitGenerate"
      then have "InitGenerate \<notin># events_of q" "total_requests s = spawned s"
        using assms pq by (auto simp: inv_gen_def count_eq_zero_iff split: if_splits)
      then have "inv_gen (generate_requests params g (s\<lparr>now := t, queue := q\<rparr>))"
        by (intro inv_gen_generate) simp_all
      then show ?thesis using qs e by (simp add: step_def)
    next
      assume "\<exists>rid. e = ArrivalTimeout rid"
      then obtain rid where e: "e = ArrivalTimeout rid" ..
      then have "InitGenerate \<notin># events_of q" "total_requests s = spawned s + 1"
        using assms pq by (auto simp: inv_gen_def split: if_splits)
      then have "inv_gen (generate_requests_resume params g rid (s\<lparr>now := t, queue := q\<rparr>))"
        unfolding generate_requests_resume_def by (intro inv_gen_generate) simp_all
      then show ?thesis using qs e by (simp add: step_def)
    qed
  next
    case False
    then have "inv_gen (s\<lparr>now := t, queue := q\<rparr>)" using inv_gen_pop [OF qs _ assms] by simp
    then show ?thesis using qs False
      by (cases e)
        (simp_all add: step_def handler_defs server_failures_def server_failures_select_def
          server_failures_recover_def
          split: option.splits list.splits sum.splits prod.splits)
  qed
qed

subsection \<open>Server indices\<close>

lemma inv_idx_updates [simp]:
  "inv_idx (s\<lparr>now := t\<rparr>) = inv_idx s"
  "length svs = length (servers s) \<Longrightarrow> inv_idx (s\<lparr>servers := svs\<rparr>) = inv_idx s"
  "inv_idx (s\<lparr>total_requests := k\<rparr>) = inv_idx s"
  "inv_idx (s\<lparr>completed_requests := k\<rparr>) = inv_idx s"
  "inv_idx (s\<lparr>failed_requests := k\<rparr>) = inv_idx s"
  "inv_idx (s\<lparr>latency := l\<rparr>) = inv_idx s"
  "inv_idx (s\<lparr>available_servers := k\<rparr>) = inv_idx s"
  "inv_idx (s\<lparr>rng := r\<rparr>) = inv_idx s"
  "inv_idx (s\<lparr>spawned := k\<rparr>) = inv_idx s"
  by (simp_all add: inv_idx_def)

lemma inv_idx_schedule [simp]:
  "inv_idx (schedule e p d s) =
     (inv_idx s \<and> (\<forall>i. server_of e = Some i \<longrightarrow> i < length (servers s)))"
  by (auto simp: inv_idx_def)

lemma inv_idx_draw_and_wait [simp]:
  assumes "\<forall>i. server_of e = Some i \<longrightarrow> i < length (servers s)"
  shows "inv_idx (draw_and_wait dn kws e g s) = inv_idx s"
  by (rule draw_and_wait_cases [of dn kws e g s]) (use assms in simp_all)

lemma inv_idx_pop:
  assumes "queue s = (t, p, n, e) # q" "inv_idx s"
  shows "inv_idx (s\<lparr>now := t, queue := q\<rparr>)" "server_of e = Some i \<Longrightarrow> i < length (servers s)"
  using assms by (auto simp: inv_idx_def pending_def)

lemma inv_idx_step:
  assumes "inv_idx s"
  shows "inv_idx (snd (step params g s))"
proof (cases "queue s")
  case Nil
  then show ?thesis using assms by (simp add: step_def)
next
  case (Cons x q)
  obtain t p n e where x: "x = (t, p, n, e)" by (cases x)
  note qs = Cons [unfolded x]
  note pop = inv_idx_pop [OF qs assms]
  show ?thesis using qs pop
    by (cases e)
      (auto simp: step_def handler_defs server_failures_def server_failures_select_def
          server_failures_recover_def generate_requests_def generate_requests_resume_def
          dest: choice_upt find_free_range
          split: option.splits list.splits sum.splits prod.splits)
qed

subsection \<open>Handlers in flight\<close>

lemma waiting_update [simp]:
  "waiting (svs[i := sv]) =
     (if i < length svs
      then waiting svs - int (length (put_queue (svs ! i))) + int (length (put_queue sv))
      else waiting svs)"
  unfolding waiting_def
proof (induction svs arbitrary: i)
  case Nil
  then show ?case by simp
next
  case (Cons a svs)
  then show ?case by (cases i) auto
qed

lemma in_flight_updates [simp]:
  "in_flight (s\<lparr>now := t\<rparr>) = in_flight s"
  "in_flight (s\<lparr>servers := svs\<rparr>) = in_flight s - waiting (servers s) + waiting svs"
  "in_flight (s\<lparr>total_requests := k\<rparr>) = in_flight s"
  "in_flight (s\<lparr>completed_requests := k\<rparr>) = in_flight s"
  "in_flight (s\<lparr>failed_requests := k\<rparr>) = in_flight s"
  "in_flight (s\<lparr>latency := l\<rparr>) = in_flight s"
  "in_flight (s\<lparr>available_servers := k\<rparr>) = in_flight s"
  "in_flight (s\<lparr>rng := r\<rparr>) = in_flight s"
  "in_flight (s\<lparr>spawned := k\<rparr>) = in_flight s"
  by (simp_all add: in_flight_def)

lemma in_flight_schedule [simp]:
  "in_flight (schedule e p d s) = in_flight s + (if handler_event e then 1 else 0)"
  by (simp add: in_flight_def)

lemma in_flight_draw_and_wait [simp]:
  assumes "\<not> handler_event e"
  shows "in_flight (draw_and_wait dn kws e g s) = in_flight s"
  by (rule draw_and_wait_cases [of dn kws e g s]) (use assms in simp_all)

lemma in_flight_pop:
  assumes "queue s = (t, p, n, e) # q"
  shows "in_flight (s\<lparr>now := t, queue := q\<rparr>) = in_flight s - (if handler_event e then 1 else 0)"
  using assms by (simp add: in_flight_def pending_def)

lemma inv_count_step:
  assumes "inv_idx s" "inv_count s"
  shows "inv_count (snd (step params g s))"
proof (cases "queue s")
  case Nil
  then show ?thesis using assms by (simp add: step_def)
next
  case (Cons x q)
  obtain t p n e where x: "x = (t, p, n, e)" by (cases x)
  note qs = Cons [unfolded x]
  note pop = inv_idx_pop(2) [OF qs assms(1)] in_flight_pop [OF qs]
  show ?thesis using qs pop assms(2)
    by (cases e)
      (auto simp: inv_count_def step_def handler_defs server_failures_def server_failures_select_def
          server_failures_recover_def generate_requests_def generate_requests_resume_def
          dest: choice_upt find_free_range length_snoc_Cons
          split: option.splits list.splits sum.splits prod.splits)
qed

subsection \<open>The failure process\<close>

lemma map_capacity_update:
  "capacity sv = capacity (svs ! i) \<Longrightarrow> map capacity (svs[i := sv]) = map capacity svs"
proof (induction svs arbitrary: i)
  case Nil
  then show ?case by simp
next
  case (Cons a svs)
  then show ?case by (cases i) auto
qed

lemma replicate_update_same: "(replicate n x)[i := x] = replicate n x"
  by (induction n arbitrary: i) (auto split: nat.splits)

lemma fail_pending_schedule [simp]:
  "fail_pending (schedule e p d s) =
     (if failure_event e then add_mset e (fail_pending s) else fail_pending s)"
  by (simp add: fail_pending_def)

lemma fail_pending_updates [simp]:
  "fail_pending (s\<lparr>now := t\<rparr>) = fail_pending s"
  "fail_pending (s\<lparr>servers := svs\<rparr>) = fail_pending s"
  "fail_pending (s\<lparr>total_requests := k\<rparr>) = fail_pending s"
  "fail_pending (s\<lparr>completed_requests := k\<rparr>) = fail_pending s"
  "fail_pending (s\<lparr>failed_requests := k\<rparr>) = fail_pending s"
  "fail_pending (s\<lparr>latency := l\<rparr>) = fail_pending s"
  "fail_pending (s\<lparr>available_servers := k\<rparr>) = fail_pending s"
  "fail_pending (s\<lparr>rng := r\<rparr>) = fail_pending s"
  "fail_pending (s\<lparr>spawned := k\<rparr>) = fail_pending s"
  by (simp_all add: fail_pending_def)

lemma fail_pending_pop:
  assumes "queue s = (t, p, n, e) # q"
  shows "fail_pending s =
     (if failure_event e then add_mset e (fail_pending (s\<lparr>now := t, queue := q\<rparr>))
      else fail_pending (s\<lparr>now := t, queue := q\<rparr>))"
  using assms by (simp add: fail_pending_def pending_def)

lemma all_up_updates [simp]:
  "all_up n (s\<lparr>now := t\<rparr>) = all_up n s"
  "all_up n (s\<lparr>queue := q\<rparr>) = all_up n s"
  "map capacity svs = map capacity (servers s) \<Longrightarrow> all_up n (s\<lparr>servers := svs\<rparr>) = all_up n s"
  "all_up n (s\<lparr>total_requests := k\<rparr>) = all_up n s"
  "all_up n (s\<lparr>completed_requests := k\<rparr>) = all_up n s"
  "all_up n (s\<lparr>failed_requests := k\<rparr>) = all_up n s"
  "all_up n (s\<lparr>latency := l\<rparr>) = all_up n s"
  "all_up n (s\<lparr>rng := r\<rparr>) = all_up n s"
  "all_up n (s\<lparr>spawned := k\<rparr>) = all_up n s"
  "all_up n (schedule e p d s) = all_up n s"
  by (auto simp: all_up_def dest: map_eq_imp_length_eq)

lemma one_down_updates [simp]:
  "one_down n i (s\<lparr>now := t\<rparr>) = one_down n i s"
  "one_down n i (s\<lparr>queue := q\<rparr>) = one_down n i s"
  "map capacity svs = map capacity (servers s) \<Longrightarrow> one_down n i (s\<lparr>servers := svs\<rparr>) = one_down n i s"
  "one_down n i (s\<lparr>total_requests := k\<rparr>) = one_down n i s"
  "one_down n i (s\<lparr>completed_requests := k\<rparr>) = one_down n i s"
  "one_down n i (s\<lparr>failed_requests := k\<rparr>) = one_down n i s"
  "one_down n i (s\<lparr>latency := l\<rparr>) = one_down n i s"
  "one_down n i (s\<lparr>rng := r\<rparr>) = one_down n i s"
  "one_down n i (s\<lparr>spawned := k\<rparr>) = one_down n i s"
  "one_down n i (schedule e p d s) = one_down n i s"
  by (auto simp: one_down_def dest: map_eq_imp_length_eq)

lemma inv_fail_updates [simp]:
  "inv_fail n (s\<lparr>now := t\<rparr>) = inv_fail n s"
  "map capacity svs = map capacity (servers s) \<Longrightarrow> inv_fail n (s\<lparr>servers := svs\<rparr>) = inv_fail n s"
  "inv_fail n (s\<lparr>total_requests := k\<rparr>) = inv_fail n s"
  "inv_fail n (s\<lparr>completed_requests := k\<rparr>) = inv_fail n s"
  "inv_fail n (s\<lparr>failed_requests := k\<rparr>) = inv_fail n s"
  "inv_fail n (s\<lparr>latency := l\<rparr>) = inv_fail n s"
  "inv_fail n (s\<lparr>rng := r\<rparr>) = inv_fail n s"
  "inv_fail n (s\<lparr>spawned := k\<rparr>) = inv_fail n s"
  "\<not> failure_event e \<Longrightarrow> inv_fail n (schedule e p d s) = inv_fail n s"
  by (simp_all add: inv_fail_def)

lemma inv_fail_draw_and_wait [simp]:
  assumes "\<not> failure_event e"
  shows "inv_fail n (draw_and_wait dn kws e g s) = inv_fail n s"
  by (rule draw_and_wait_cases [of dn kws e g s]) (use assms in simp_all)

lemma inv_fail_server_failures:
  assumes "all_up n s" "fail_pending s = {#}"
  shows "inv_fail n (server_failures params g s)"
  unfolding server_failures_def
  by (rule draw_and_wait_cases [of "failure_rate_distribution params"
        "rate_kwargs (failure_rate params)" FailureTimeout g s])
     (use assms in \<open>simp_all add: inv_fail_def\<close>)

lemma inv_fail_recovery:
  assumes "one_down n i s" "fail_pending s = {#}"
  shows "inv_fail n (draw_and_wait dn kws (RecoveryTimeout i) g s)"
  by (rule draw_and_wait_cases [of dn kws "RecoveryTimeout i" g s])
     (use assms in \<open>auto simp: inv_fail_def\<close>)

lemma inv_fail_select:
  assumes "all_up n s" "fail_pending s = {#}"
  shows "inv_fail n (server_failures_select params g s)"
proof -
  obtain res r where c: "choice [0..<length (servers s)] g (rng s) = (res, r)"
    by (cases "choice [0..<length (servers s)] g (rng s)")
  show ?thesis
  proof (cases res)
    case (Inl err)
    then show ?thesis using c assms
      by (simp add: server_failures_select_def fail_def inv_fail_def)
  next
    case (Inr i)
    then have i: "i < n" using c assms choice_upt [of "length (servers s)" g "rng s" i r]
      by (simp add: all_up_def)
    show ?thesis
    proof (cases "length (users (servers s ! i)) = 0")
      case True
      have "one_down n i (s\<lparr>rng := r,
                 servers := (servers s)[i := (servers s ! i)\<lparr>capacity := 0\<rparr>],
                 available_servers := available_servers s - 1\<rparr>)"
        using assms(1) i by (simp add: one_down_def all_up_def map_update)
      then show ?thesis using c Inr True assms(2)
        by (simp add: server_failures_select_def inv_fail_recovery)
    next
      case False
      then show ?thesis using c Inr assms
        by (simp add: server_failures_select_def inv_fail_server_failures)
    qed
  qed
qed

lemma inv_fail_recover:
  assumes "one_down n i s" "fail_pending s = {#}"
  shows "inv_fail n (server_failures_recover params g i s)"
proof -
  have "all_up n (s\<lparr>servers := (servers s)[i := (servers s ! i)\<lparr>capacity := 1\<rparr>],
          available_servers := available_servers s + 1\<rparr>)"
    using assms(1) by (simp add: one_down_def all_up_def map_update replicate_update_same)
  then show ?thesis using assms(2)
    by (simp add: server_failures_recover_def inv_fail_server_failures)
qed

lemma inv_fail_step:
  assumes "inv_fail n s"
  shows "inv_fail n (snd (step params g s))"
proof (cases "queue s")
  case Nil
  then show ?thesis using assms by (simp add: step_def)
next
  case (Cons x q)
  obtain t p k e where x: "x = (t, p, k, e)" by (cases x)
  note qs = Cons [unfolded x]
  note fp = fail_pending_pop [OF qs]
  let ?s1 = "s\<lparr>now := t, queue := q\<rparr>"
  show ?thesis
  proof (cases "failure_event e")
    case False
    then have "inv_fail n ?s1" using assms fp by (simp add: inv_fail_def)
    then show ?thesis using qs False
      by (cases e)
        (auto simp: step_def handler_defs generate_requests_def generate_requests_resume_def
          map_capacity_update
          dest: find_free_range
          split: option.splits list.splits sum.splits prod.splits)
  next
    case True
    then consider (init) "e = InitFailures" | (ft) "e = FailureTimeout"
      | (rt) i where "e = RecoveryTimeout i"
      by (cases e) auto
    then show ?thesis
    proof cases
      case init
      then have "all_up n ?s1" "fail_pending ?s1 = {#}"
        using assms fp by (auto simp: inv_fail_def)
      then show ?thesis using qs init by (simp add: step_def inv_fail_server_failures)
    next
      case ft
      then have "all_up n ?s1" "fail_pending ?s1 = {#}"
        using assms fp by (auto simp: inv_fail_def)
      then show ?thesis using qs ft by (simp add: step_def inv_fail_select)
    next
      case rt
      then have "one_down n i ?s1" "fail_pending ?s1 = {#}"
        using assms fp by (auto simp: inv_fail_def)
      then show ?thesis using qs rt by (simp add: step_def inv_fail_recover)
    qed
  qed
qed

section \<open>Reachable states satisfy the invariants\<close>

lemma pending_empty: "queue s = [] \<Longrightarrow> pending s = {#}"
  by (simp add: pending_def)

lemma init_pending:
  assumes "init params r = Inr s"
  shows "pending s = {#InitGenerate, InitFailures#}"
    "servers s = replicate (nat (num_servers params)) \<lparr>capacity = 1, users = [], put_queue = []\<rparr>"
    "total_requests s = 0" "completed_requests s = 0" "failed_requests s = 0"
    "spawned s = 0" "available_servers s = num_servers params"
  using assms by (auto simp: init_def pending_empty)

lemma init_queue:
  assumes "init params r = Inr s"
  shows "queue s = [(0, 0, 0, InitGenerate), (0, 0, 1, InitFailures)]" "now s = 0"
  using assms by (auto simp: init_def schedule_def)

lemma waiting_replicate: "waiting (replicate n \<lparr>capacity = c, users = [], put_queue = []\<rparr>) = 0"
  by (induction n) (simp_all add: waiting_def)

lemma init_inv:
  assumes "init params r = Inr s"
  shows "inv_gen s" "inv_idx s" "inv_count s"
  using init_pending [OF assms]
  by (simp_all add: inv_gen_def inv_idx_def inv_count_def in_flight_def waiting_replicate)

lemma init_inv_fail:
  assumes "init params r = Inr s" "0 \<le> num_servers params"
  shows "inv_fail (nat (num_servers params)) s"
  using init_pending [OF assms(1)] assms(2)
  by (simp add: inv_fail_def all_up_def fail_pending_def)

lemma inv_count_schedule_Until [simp]: "inv_count (schedule Until p d s) = inv_count s"
  by (simp add: inv_count_def)

lemma advance_inv:
  assumes "inv_gen s" "inv_idx s" "inv_count s"
  shows "inv_gen (advance params g cs s) \<and> inv_idx (advance params g cs s) \<and>
         inv_count (advance params g cs s)"
  using assms
proof (induction cs arbitrary: s)
  case Nil
  then show ?case by simp
next
  case (Cons c cs)
  show ?case
  proof (cases c)
    case Step
    have "inv_gen (snd (step params g s))" "inv_idx (snd (step params g s))"
      "inv_count (snd (step params g s))"
      using Cons.prems by (simp_all add: inv_gen_step inv_idx_step inv_count_step)
    from Cons.IH [OF this] show ?thesis using Step by simp
  next
    case (Horizon t)
    let ?s = "if t \<le> now s then s else schedule Until URGENT (t - now s) s"
    have "inv_gen ?s" "inv_idx ?s" "inv_count ?s" using Cons.prems by simp_all
    from Cons.IH [OF this] show ?thesis using Horizon by simp
  qed
qed

lemma advance_inv_fail:
  assumes "inv_fail n s"
  shows "inv_fail n (advance params g cs s)"
  using assms
proof (induction cs arbitrary: s)
  case Nil
  then show ?case by simp
next
  case (Cons c cs)
  show ?case
  proof (cases c)
    case Step
    from Cons.IH [OF inv_fail_step [OF Cons.prems]] show ?thesis using Step by simp
  next
    case (Horizon t)
    have "inv_fail n (if t \<le> now s then s else schedule Until URGENT (t - now s) s)"
      using Cons.prems by simp
    from Cons.IH [OF this] show ?thesis using Horizon by simp
  qed
qed

lemma waiting_nonneg: "0 \<le> waiting svs"
  by (induction svs) (simp_all add: waiting_def)

lemma in_flight_nonneg: "0 \<le> in_flight s"
  using waiting_nonneg [of "servers s"] by (simp add: in_flight_def)

lemma inv_gen_spawned: "inv_gen s \<Longrightarrow> spawned s \<le> total_requests s"
  by (auto simp: inv_gen_def split: if_splits)

text \<open>
  The states in which \<open>env.run\<close> returns or raises, and the snapshots that
  \<open>run_simulation\<close> takes, are states that a sequence of calls reaches.
\<close>

lemma run_loop_advance:
  assumes "run_loop params g fuel s = Some (sig, s')"
  shows "\<exists>n. s' = advance params g (replicate n Step) s"
  using assms
proof (induction fuel arbitrary: s)
  case 0
  then show ?case by simp
next
  case (Suc fuel)
  obtain so s1 where st: "step params g s = (so, s1)" by (cases "step params g s")
  show ?case
  proof (cases so)
    case None
    then have "run_loop params g fuel s1 = Some (sig, s')" using Suc.prems st by simp
    from Suc.IH [OF this] obtain n where "s' = advance params g (replicate n Step) s1" ..
    then have "s' = advance params g (replicate (Suc n) Step) s" using st by simp
    then show ?thesis ..
  next
    case (Some a)
    then have "s' = advance params g (replicate 1 Step) s" using Suc.prems st by simp
    then show ?thesis ..
  qed
qed

lemma run_advance:
  assumes "run params g fuel t s = Some (res, s')"
  shows "\<exists>cs. s' = advance params g cs s"
proof (cases "t \<le> now s")
  case True
  then have "s' = advance params g [] s" using assms by (simp add: run_def)
  then show ?thesis ..
next
  case False
  then obtain sig where "run_loop params g fuel (schedule Until URGENT (t - now s) s) = Some (sig, s')"
    using assms by (auto simp: run_def split: option.splits signal.splits)
  from run_loop_advance [OF this] obtain n
    where "s' = advance params g (replicate n Step) (schedule Until URGENT (t - now s) s)" ..
  then have "s' = advance params g (Horizon t # replicate n Step) s" using False by simp
  then show ?thesis ..
qed

lemma run_simulation_advance:
  assumes "run_simulation params g fuel t r = Some (Inr m, r')"
  shows "\<exists>cs. m = get_metrics (advance params g cs (projr (init params r)))"
proof -
  obtain s' where "run params g fuel t (projr (init params r)) = Some (Inr (), s')"
    and m: "m = get_metrics s'"
    using assms
    by (auto simp: run_simulation_def init_def split: option.splits sum.splits)
  from run_advance [OF this(1)] show ?thesis using m by auto
qed

section \<open>The terminal counters never exceed the total\<close>

text \<open>
  C6. In every state that the simulation passes through, whatever the calls of the caller
  and whatever the source of variates, \<open>completed_requests + failed_requests\<close> is at most
  \<open>total_requests\<close>: a handler adds to at most one of the two counters, and it is spawned
  only after \<open>total_requests\<close> has counted its request.
\<close>

theorem completed_failed_le_total:
  assumes "init params r = Inr s0"
  shows "completed_requests (advance params g cs s0) + failed_requests (advance params g cs s0)
           \<le> total_requests (advance params g cs s0)"
proof -
  let ?s = "advance params g cs s0"
  have "inv_gen ?s" "inv_count ?s"
    using advance_inv [OF init_inv [OF assms]] by simp_all
  then show ?thesis
    using in_flight_nonneg [of ?s] inv_gen_spawned [of ?s] by (simp add: inv_count_def)
qed

theorem completed_failed_le_total_witness:
  "init scenario_c 0 = Inr (projr (init scenario_c 0)) \<and>
   completed_requests
     (advance scenario_c zeros [Step, Step, Step, Step, Step, Step] (projr (init scenario_c 0))) = 1 \<and>
   total_requests
     (advance scenario_c zeros [Step, Step, Step, Step, Step, Step] (projr (init scenario_c 0))) = 2 \<and>
   completed_requests
     (advance scenario_c zeros [Step, Step, Step, Step, Step, Step] (projr (init scenario_c 0))) +
   failed_requests
     (advance scenario_c zeros [Step, Step, Step, Step, Step, Step] (projr (init scenario_c 0)))
   \<le> total_requests
     (advance scenario_c zeros [Step, Step, Step, Step, Step, Step] (projr (init scenario_c 0)))"
  using completed_failed_le_total [OF init_projr, where params = scenario_c and r = 0
      and g = zeros and cs = "[Step, Step, Step, Step, Step, Step]"]
  unfolding scenario_c_trace by (simp add: init_projr [symmetric])

section \<open>Available servers\<close>

lemma count_up_caps:
  "length (filter up svs) = length (filter (\<lambda>c. c = 1) (map capacity svs))"
  by (induction svs) (simp_all add: up_def)

lemma count_replicate_one: "length (filter (\<lambda>c. c = 1) (replicate n (1::int))) = n"
  by (induction n) simp_all

lemma count_replicate_down:
  "i < n \<Longrightarrow> int (length (filter (\<lambda>c. c = 1) ((replicate n (1::int))[i := 0]))) = int n - 1"
proof (induction n arbitrary: i)
  case 0
  then show ?case by simp
next
  case (Suc n)
  then show ?case by (cases i) (simp_all add: count_replicate_one)
qed

lemma all_up_available:
  assumes "all_up n s"
  shows "available_servers s = int (length (filter up (servers s)))"
proof -
  have "length (filter up (servers s)) = length (filter (\<lambda>c. c = 1) (replicate n (1::int)))"
    using assms by (simp only: count_up_caps all_up_def)
  then show ?thesis using assms by (simp only: count_replicate_one all_up_def)
qed

lemma one_down_available:
  assumes "one_down n i s"
  shows "available_servers s = int (length (filter up (servers s)))"
proof -
  have "length (filter up (servers s)) =
        length (filter (\<lambda>c. c = 1) ((replicate n (1::int))[i := 0]))"
    using assms by (simp only: count_up_caps one_down_def)
  moreover have "i < n" using assms by (simp add: one_down_def)
  ultimately show ?thesis using assms count_replicate_down [of i n] by (simp only: one_down_def)
qed

lemma inv_fail_available:
  assumes "inv_fail n s"
  shows "available_servers s = int (length (filter up (servers s))) \<and>
         0 \<le> available_servers s \<and> available_servers s \<le> int n"
proof -
  consider "all_up n s" | i where "one_down n i s" using assms by (auto simp: inv_fail_def)
  then show ?thesis
  proof cases
    case 1
    then show ?thesis using all_up_available [OF 1] by (simp add: all_up_def)
  next
    case 2
    then show ?thesis using one_down_available [OF 2] by (simp add: one_down_def)
  qed
qed

text \<open>
  C9. For a configuration with \<open>num_servers \<ge> 0\<close>, the \<open>available_servers\<close> of every
  snapshot is the number of servers that are in service (capacity 1), and it lies between
  0 and \<open>num_servers\<close>.
\<close>

theorem available_servers_counts_up:
  assumes "init params r = Inr s0" "0 \<le> num_servers params"
  shows "m_available_servers (get_metrics (advance params g cs s0)) =
           int (length (filter up (servers (advance params g cs s0)))) \<and>
         0 \<le> m_available_servers (get_metrics (advance params g cs s0)) \<and>
         m_available_servers (get_metrics (advance params g cs s0)) \<le> num_servers params"
proof -
  have "inv_fail (nat (num_servers params)) (advance params g cs s0)"
    by (rule advance_inv_fail [OF init_inv_fail [OF assms]])
  from inv_fail_available [OF this] show ?thesis using assms(2) by (simp add: get_metrics_def)
qed

theorem available_servers_counts_up_witness:
  "init example_params 0 = Inr (projr (init example_params 0)) \<and> 0 \<le> num_servers example_params \<and>
   m_available_servers (get_metrics
     (advance example_params zeros [Step, Step, Step] (projr (init example_params 0)))) = 1 \<and>
   m_available_servers (get_metrics
     (advance example_params zeros [Step, Step, Step] (projr (init example_params 0)))) =
   int (length (filter up (servers
     (advance example_params zeros [Step, Step, Step] (projr (init example_params 0))))))"
  using available_servers_counts_up [OF init_projr, where params = example_params and r = 0
      and g = zeros and cs = "[Step, Step, Step]"]
  unfolding example_trace_3
  by (simp add: init_projr [symmetric] get_metrics_def example_params_def)

section \<open>The total counts one request ahead\<close>

lemma no_init_draw_and_wait [simp]:
  assumes "e \<noteq> InitGenerate"
  shows "InitGenerate \<in># pending (draw_and_wait dn kws e g s) \<longleftrightarrow> InitGenerate \<in># pending s"
  by (rule draw_and_wait_cases [of dn kws e g s]) (use assms in simp_all)

lemma no_init_step:
  assumes "InitGenerate \<notin># pending s"
  shows "InitGenerate \<notin># pending (snd (step params g s))"
proof (cases "queue s")
  case Nil
  then show ?thesis using assms by (simp add: step_def)
next
  case (Cons x q)
  obtain t p n e where x: "x = (t, p, n, e)" by (cases x)
  note qs = Cons [unfolded x]
  have "e \<noteq> InitGenerate" "InitGenerate \<notin># events_of q"
    using assms pending_queue [OF qs] by auto
  then show ?thesis using qs
    by (cases e)
      (auto simp: step_def handler_defs server_failures_def server_failures_select_def
          server_failures_recover_def generate_requests_def generate_requests_resume_def
          split: option.splits list.splits sum.splits prod.splits)
qed

lemma no_init_advance:
  assumes "InitGenerate \<notin># pending s"
  shows "InitGenerate \<notin># pending (advance params g cs s)"
  using assms
proof (induction cs arbitrary: s)
  case Nil
  then show ?case by simp
next
  case (Cons c cs)
  show ?case
  proof (cases c)
    case Step
    from Cons.IH [OF no_init_step [OF Cons.prems]] show ?thesis using Step by simp
  next
    case (Horizon t)
    have "InitGenerate \<notin># pending (if t \<le> now s then s else schedule Until URGENT (t - now s) s)"
      using Cons.prems by simp
    from Cons.IH [OF this] show ?thesis using Horizon by simp
  qed
qed

lemma first_step_advance:
  assumes "queue s = (0, 0, 0, InitGenerate) # q" "InitGenerate \<notin># events_of q" "now s = 0"
    "Step \<in> set cs"
  shows "InitGenerate \<notin># pending (advance params g cs s)"
  using assms
proof (induction cs arbitrary: s q)
  case Nil
  then show ?case by simp
next
  case (Cons c cs)
  show ?case
  proof (cases c)
    case Step
    have "InitGenerate \<notin># pending (snd (step params g s))"
      using Cons.prems(1,2) by (simp add: step_def generate_requests_def)
    from no_init_advance [OF this] show ?thesis using Step by simp
  next
    case (Horizon t)
    let ?s = "if t \<le> now s then s else schedule Until URGENT (t - now s) s"
    have "\<exists>q'. queue ?s = (0, 0, 0, InitGenerate) # q' \<and> InitGenerate \<notin># events_of q'"
      using Cons.prems(1,2,3) by (auto simp: schedule_def)
    then obtain q' where "queue ?s = (0, 0, 0, InitGenerate) # q'" "InitGenerate \<notin># events_of q'"
      by blast
    moreover have "now ?s = 0" using Cons.prems(3) by simp
    moreover have "Step \<in> set cs" using Cons.prems(4) Horizon by simp
    ultimately have "InitGenerate \<notin># pending (advance params g cs ?s)" by (rule Cons.IH)
    then show ?thesis using Horizon by simp
  qed
qed

text \<open>
  C10. Once the run has started (the caller has made a step), and in particular whenever
  the arrival generator is suspended at its \<open>yield\<close>, \<open>total_requests\<close> is the number of
  handlers spawned plus one, and so \<open>completed_requests + failed_requests\<close> is at most
  \<open>total_requests - 1\<close>.
\<close>

theorem total_counts_one_ahead:
  assumes "init params r = Inr s0"
    and "Step \<in> set cs \<or> suspended (advance params g cs s0)"
  shows "total_requests (advance params g cs s0) = spawned (advance params g cs s0) + 1 \<and>
         completed_requests (advance params g cs s0) + failed_requests (advance params g cs s0)
           \<le> total_requests (advance params g cs s0) - 1"
proof -
  let ?s = "advance params g cs s0"
  have inv: "inv_gen ?s" "inv_count ?s"
    using advance_inv [OF init_inv [OF assms(1)]] by simp_all
  have "InitGenerate \<notin># pending ?s"
    using assms(2)
  proof
    assume "Step \<in> set cs"
    then show ?thesis
      using first_step_advance [of s0 "[(0, 0, 1, InitFailures)]" cs params g]
        init_queue [OF assms(1)] by simp
  next
    assume "suspended ?s"
    then show ?thesis using inv(1) by (auto simp: suspended_def inv_gen_def split: if_splits)
  qed
  then have "total_requests ?s = spawned ?s + 1" using inv(1) by (simp add: inv_gen_def)
  then show ?thesis using inv(2) in_flight_nonneg [of ?s] by (simp add: inv_count_def)
qed

theorem total_counts_one_ahead_witness:
  "init scenario_c 0 = Inr (projr (init scenario_c 0)) \<and>
   Step \<in> set [Step, Step, Step, Step, Step, Step] \<and>
   suspended (advance scenario_c zeros [Step, Step, Step, Step, Step, Step]
     (projr (init scenario_c 0))) \<and>
   spawned (advance scenario_c zeros [Step, Step, Step, Step, Step, Step]
     (projr (init scenario_c 0))) = 1 \<and>
   total_requests (advance scenario_c zeros [Step, Step, Step, Step, Step, Step]
     (projr (init scenario_c 0))) =
   spawned (advance scenario_c zeros [Step, Step, Step, Step, Step, Step]
     (projr (init scenario_c 0))) + 1 \<and>
   completed_requests (advance scenario_c zeros [Step, Step, Step, Step, Step, Step]
     (projr (init scenario_c 0))) +
   failed_requests (advance scenario_c zeros [Step, Step, Step, Step, Step, Step]
     (projr (init scenario_c 0)))
   \<le> total_requests (advance scenario_c zeros [Step, Step, Step, Step, Step, Step]
     (projr (init scenario_c 0))) - 1"
  using total_counts_one_ahead [OF init_projr, where params = scenario_c and r = 0
      and g = zeros and cs = "[Step, Step, Step, Step, Step, Step]"]
  unfolding scenario_c_trace
  by (simp add: init_projr [symmetric] suspended_def pending_def)

section \<open>Failures hit idle servers only\<close>

lemma step_caps_other:
  assumes "queue s = (t, p, n, e) # q" "\<not> failure_event e"
  shows "map capacity (servers (snd (step params g s))) = map capacity (servers s)"
  using assms
  by (cases e)
    (auto simp: step_def handler_defs generate_requests_def generate_requests_resume_def
        map_capacity_update
        dest: find_free_range
        split: option.splits list.splits sum.splits prod.splits)

lemma step_caps_failure:
  assumes "queue s = (t, p, n, e) # q" "failure_event e"
  shows "map capacity (servers (snd (step params g s))) = map capacity (servers s) \<or>
   (\<exists>i. users (servers s ! i) = [] \<and>
        map capacity (servers (snd (step params g s))) = (map capacity (servers s))[i := 0]) \<or>
   (\<exists>i. map capacity (servers (snd (step params g s))) = (map capacity (servers s))[i := 1])"
  using assms
  by (cases e)
    (auto simp: step_def server_failures_def server_failures_select_def
        server_failures_recover_def fail_def map_update Let_def
        split: sum.splits prod.splits)

lemma step_caps:
  "map capacity (servers (snd (step params g s))) = map capacity (servers s) \<or>
   (\<exists>i. users (servers s ! i) = [] \<and>
        map capacity (servers (snd (step params g s))) = (map capacity (servers s))[i := 0]) \<or>
   (\<exists>i. map capacity (servers (snd (step params g s))) = (map capacity (servers s))[i := 1])"
proof (cases "queue s")
  case Nil
  then show ?thesis by (simp add: step_def)
next
  case (Cons x q)
  obtain t p n e where x: "x = (t, p, n, e)" by (cases x)
  note qs = Cons [unfolded x]
  show ?thesis
  proof (cases "failure_event e")
    case True
    from step_caps_failure [OF qs this] show ?thesis .
  next
    case False
    from step_caps_other [OF qs this] show ?thesis by simp
  qed
qed

lemma nth_caps:
  assumes "map capacity svs' = cs" "i < length cs"
  shows "capacity (svs' ! i) = cs ! i"
proof -
  have "i < length svs'" using assms by auto
  then have "map capacity svs' ! i = capacity (svs' ! i)" by (rule nth_map)
  then show ?thesis using assms(1) by simp
qed

text \<open>
  C5. In one step of the environment, from any state: a server that is in service before
  the step and out of service after it had no user before the step. And when the failure
  process resumes and the server it selects has a user, the process only goes back to
  the top of its loop, where it draws the next time to failure: the servers and
  \<open>available_servers\<close> are unchanged.
\<close>

theorem failure_only_on_idle_server:
  assumes "step params g s = (sig, s')"
  shows "(\<forall>i < length (servers s).
            up (servers s ! i) \<and> \<not> up (servers s' ! i) \<longrightarrow> users (servers s ! i) = []) \<and>
         (\<forall>t p n q i r.
            queue s = (t, p, n, FailureTimeout) # q \<and>
            choice [0..<length (servers s)] g (rng s) = (Inr i, r) \<and>
            users (servers s ! i) \<noteq> [] \<longrightarrow>
              s' = server_failures params g (s\<lparr>now := t, queue := q, rng := r\<rparr>) \<and>
              servers s' = servers s \<and> available_servers s' = available_servers s)"
proof (intro conjI allI impI)
  fix i
  assume i: "i < length (servers s)" and ch: "up (servers s ! i) \<and> \<not> up (servers s' ! i)"
  have s': "s' = snd (step params g s)" using assms by simp
  let ?c = "map capacity (servers s)"
  have c: "?c ! i = 1" using i ch by (simp add: up_def)
  from step_caps [of params g s]
  consider "map capacity (servers s') = ?c"
    | j where "users (servers s ! j) = []" "map capacity (servers s') = ?c[j := 0]"
    | j where "map capacity (servers s') = ?c[j := 1]"
    unfolding s' by blast
  then show "users (servers s ! i) = []"
  proof cases
    case 1
    from nth_caps [OF this] have "capacity (servers s' ! i) = 1" using i c by simp
    then show ?thesis using ch by (simp add: up_def)
  next
    case 2
    from nth_caps [OF 2(2)] have "capacity (servers s' ! i) = (?c[j := 0]) ! i" using i by simp
    then have "i = j" using ch c i by (cases "i = j") (simp_all add: up_def)
    then show ?thesis using 2(1) by simp
  next
    case 3
    from nth_caps [OF 3] have "capacity (servers s' ! i) = (?c[j := 1]) ! i" using i by simp
    then have "capacity (servers s' ! i) = 1" using c i by (cases "i = j") simp_all
    then show ?thesis using ch by (simp add: up_def)
  qed
next
  fix t p n q i r
  assume h: "queue s = (t, p, n, FailureTimeout) # q \<and>
            choice [0..<length (servers s)] g (rng s) = (Inr i, r) \<and>
            users (servers s ! i) \<noteq> []"
  then have eq: "s' = server_failures params g (s\<lparr>now := t, queue := q, rng := r\<rparr>)"
    using assms by (auto simp: step_def server_failures_select_def)
  show "s' = server_failures params g (s\<lparr>now := t, queue := q, rng := r\<rparr>)" by (rule eq)
  show "servers s' = servers s" unfolding eq by (simp add: server_failures_def)
  show "available_servers s' = available_servers s" unfolding eq by (simp add: server_failures_def)
qed

theorem failure_only_on_idle_server_witness:
  "(let s = advance example_params zeros [Step, Step] (projr (init example_params 0));
        s' = snd (step example_params zeros s)
    in step example_params zeros s = (fst (step example_params zeros s), s') \<and>
       0 < length (servers s) \<and> up (servers s ! 0) \<and> \<not> up (servers s' ! 0) \<and>
       users (servers s ! 0) = []) \<and>
   (let s = advance busy_params zeros [Step, Step, Step, Step, Step] (projr (init busy_params 0));
        s' = snd (step busy_params zeros s)
    in step busy_params zeros s = (fst (step busy_params zeros s), s') \<and>
       queue s = (5 / 2, 1, 3, FailureTimeout) #
                 [(3, 1, 7, ProcessingTimeout 1 0 2), (4, 1, 5, ArrivalTimeout 2)] \<and>
       choice [0..<length (servers s)] zeros (rng s) = (Inr 0, 5) \<and>
       users (servers s ! 0) \<noteq> [] \<and>
       servers s' = servers s \<and> available_servers s' = available_servers s)"
  using failure_only_on_idle_server [OF step_pair, where params = example_params and g = zeros
      and s = "advance example_params zeros [Step, Step] (projr (init example_params 0))"]
    failure_only_on_idle_server [OF step_pair, where params = busy_params and g = zeros
      and s = "advance busy_params zeros [Step, Step, Step, Step, Step] (projr (init busy_params 0))"]
  unfolding example_trace_2 busy_trace_5
  by (simp add: eval_defs up_def)

section \<open>The process-wide generator\<close>

text \<open>
  C4, as stated, fails: the constructor takes no seed, and the variates come from the
  generator of the process. Two simulations of the same configuration to the same horizon,
  run one after the other in one process, give different snapshots: the second starts
  where the first has left the generator.
\<close>

theorem same_config_different_snapshots:
  "run_simulation example_params two_phase 12 (203 / 100) 0 =
     Some (Inr \<lparr>m_total_requests = 2, m_completed_requests = 0, m_failed_requests = 0,
                 m_avg_latency = 0, m_available_servers = 2\<rparr>, 6) \<and>
   run_simulation example_params two_phase 12 (203 / 100) 6 =
     Some (Inr \<lparr>m_total_requests = 1, m_completed_requests = 0, m_failed_requests = 0,
                 m_avg_latency = 0, m_available_servers = 2\<rparr>, 11)"
  by (simp add: eval_defs eval_nat_numeral replicate_2)

text \<open>
  A run from a later position of the generator is the run of the shifted source from
  position 0.
\<close>

lemma random_value_shift:
  "random_value dn kw g (j + r) =
     (case random_value dn kw (\<lambda>k. g (k + r)) j of (res, j') \<Rightarrow> (res, j' + r))"
  by (simp add: random_value_def expovariate_def uniform_def gauss_def choice_def Let_def)

lemma choice_shift:
  "choice xs g (j + r) = (case choice xs (\<lambda>k. g (k + r)) j of (res, j') \<Rightarrow> (res, j' + r))"
  by (simp add: choice_def Let_def)

lemma rng_out:
  "(s\<lparr>rng := j\<rparr>)\<lparr>now := t\<rparr> = (s\<lparr>now := t\<rparr>)\<lparr>rng := j\<rparr>"
  "(s\<lparr>rng := j\<rparr>)\<lparr>queue := q\<rparr> = (s\<lparr>queue := q\<rparr>)\<lparr>rng := j\<rparr>"
  "(s\<lparr>rng := j\<rparr>)\<lparr>eid := n\<rparr> = (s\<lparr>eid := n\<rparr>)\<lparr>rng := j\<rparr>"
  "(s\<lparr>rng := j\<rparr>)\<lparr>servers := svs\<rparr> = (s\<lparr>servers := svs\<rparr>)\<lparr>rng := j\<rparr>"
  "(s\<lparr>rng := j\<rparr>)\<lparr>total_requests := k\<rparr> = (s\<lparr>total_requests := k\<rparr>)\<lparr>rng := j\<rparr>"
  "(s\<lparr>rng := j\<rparr>)\<lparr>completed_requests := k\<rparr> = (s\<lparr>completed_requests := k\<rparr>)\<lparr>rng := j\<rparr>"
  "(s\<lparr>rng := j\<rparr>)\<lparr>failed_requests := k\<rparr> = (s\<lparr>failed_requests := k\<rparr>)\<lparr>rng := j\<rparr>"
  "(s\<lparr>rng := j\<rparr>)\<lparr>latency := l\<rparr> = (s\<lparr>latency := l\<rparr>)\<lparr>rng := j\<rparr>"
  "(s\<lparr>rng := j\<rparr>)\<lparr>available_servers := k\<rparr> = (s\<lparr>available_servers := k\<rparr>)\<lparr>rng := j\<rparr>"
  "(s\<lparr>rng := j\<rparr>)\<lparr>spawned := k\<rparr> = (s\<lparr>spawned := k\<rparr>)\<lparr>rng := j\<rparr>"
  by (cases s; simp)+

lemma schedule_rng: "schedule e p d (s\<lparr>rng := j\<rparr>) = (schedule e p d s)\<lparr>rng := j\<rparr>"
  by (simp add: schedule_def rng_out)

lemma trigger_put_rng: "trigger_put i (s\<lparr>rng := j\<rparr>) = (trigger_put i s)\<lparr>rng := j\<rparr>"
  by (simp add: trigger_put_def Let_def schedule_rng rng_out split: list.splits)

lemma request_rng: "request i rid a (s\<lparr>rng := j\<rparr>) = (request i rid a s)\<lparr>rng := j\<rparr>"
  by (simp add: request_def Let_def trigger_put_rng rng_out)

lemma release_rng: "release i rid (s\<lparr>rng := j\<rparr>) = (release i rid s)\<lparr>rng := j\<rparr>"
  by (simp add: release_def Let_def schedule_rng rng_out)

lemma process_request_rng:
  "process_request rid (s\<lparr>rng := j\<rparr>) = (process_request rid s)\<lparr>rng := j\<rparr>"
  by (simp add: process_request_def Let_def finish_def request_rng schedule_rng rng_out
      split: option.splits)

lemma process_request_done_rng:
  "process_request_done rid i a (s\<lparr>rng := j\<rparr>) = (process_request_done rid i a s)\<lparr>rng := j\<rparr>"
  by (simp add: process_request_done_def finish_def release_rng schedule_rng rng_out)

lemma advance_rng_rng: "advance_rng r (s\<lparr>rng := j\<rparr>) = s\<lparr>rng := j + r\<rparr>"
  by (simp add: advance_rng_def)

lemma draw_and_wait_shift:
  "draw_and_wait dn kws e g (s\<lparr>rng := j + r\<rparr>) =
     advance_rng r (draw_and_wait dn kws e (\<lambda>k. g (k + r)) (s\<lparr>rng := j\<rparr>))"
  by (simp add: draw_and_wait_def advance_rng_def random_value_shift fail_def timeout_def
      schedule_rng split: sum.splits prod.splits)

lemma generate_requests_shift:
  "generate_requests params g (s\<lparr>rng := j + r\<rparr>) =
     advance_rng r (generate_requests params (\<lambda>k. g (k + r)) (s\<lparr>rng := j\<rparr>))"
  by (simp add: generate_requests_def Let_def rng_out draw_and_wait_shift)

lemma generate_requests_resume_shift:
  "generate_requests_resume params g rid (s\<lparr>rng := j + r\<rparr>) =
     advance_rng r (generate_requests_resume params (\<lambda>k. g (k + r)) rid (s\<lparr>rng := j\<rparr>))"
  by (simp add: generate_requests_resume_def rng_out schedule_rng generate_requests_shift)

lemma process_request_granted_shift:
  "process_request_granted params g rid i a (s\<lparr>rng := j + r\<rparr>) =
     advance_rng r (process_request_granted params (\<lambda>k. g (k + r)) rid i a (s\<lparr>rng := j\<rparr>))"
  by (simp add: process_request_granted_def advance_rng_def random_value_shift fail_def
      release_rng schedule_rng split: sum.splits prod.splits)

lemma server_failures_shift:
  "server_failures params g (s\<lparr>rng := j + r\<rparr>) =
     advance_rng r (server_failures params (\<lambda>k. g (k + r)) (s\<lparr>rng := j\<rparr>))"
  by (simp add: server_failures_def draw_and_wait_shift)

lemma server_failures_select_shift:
  "server_failures_select params g (s\<lparr>rng := j + r\<rparr>) =
     advance_rng r (server_failures_select params (\<lambda>k. g (k + r)) (s\<lparr>rng := j\<rparr>))"
  by (auto simp: server_failures_select_def choice_shift fail_def schedule_rng rng_out
      draw_and_wait_shift server_failures_shift advance_rng_rng
      split: sum.splits prod.splits)

lemma server_failures_recover_shift:
  "server_failures_recover params g i (s\<lparr>rng := j + r\<rparr>) =
     advance_rng r (server_failures_recover params (\<lambda>k. g (k + r)) i (s\<lparr>rng := j\<rparr>))"
  by (simp add: server_failures_recover_def rng_out server_failures_shift)

lemma step_shift:
  "step params g (s\<lparr>rng := j + r\<rparr>) =
     map_prod id (advance_rng r) (step params (\<lambda>k. g (k + r)) (s\<lparr>rng := j\<rparr>))"
proof (cases "queue s")
  case Nil
  then show ?thesis by (simp add: step_def advance_rng_rng)
next
  case (Cons x q)
  obtain t p n e where x: "x = (t, p, n, e)" by (cases x)
  note qs = Cons [unfolded x]
  show ?thesis
  proof (cases e)
    case (Terminated err)
    then show ?thesis using qs by (cases err) (simp_all add: step_def rng_out advance_rng_rng)
  qed (use qs in \<open>simp_all add: step_def rng_out advance_rng_rng
        generate_requests_shift generate_requests_resume_shift process_request_granted_shift
        server_failures_shift server_failures_select_shift server_failures_recover_shift
        process_request_rng process_request_done_rng trigger_put_rng\<close>)
qed

lemma run_loop_shift:
  "run_loop params g fuel (s\<lparr>rng := j + r\<rparr>) =
     map_option (map_prod id (advance_rng r))
       (run_loop params (\<lambda>k. g (k + r)) fuel (s\<lparr>rng := j\<rparr>))"
proof (induction fuel arbitrary: s j)
  case 0
  then show ?case by simp
next
  case (Suc fuel)
  obtain sig s' where st: "step params (\<lambda>k. g (k + r)) (s\<lparr>rng := j\<rparr>) = (sig, s')"
    by (cases "step params (\<lambda>k. g (k + r)) (s\<lparr>rng := j\<rparr>)")
  then have st': "step params g (s\<lparr>rng := j + r\<rparr>) = (sig, advance_rng r s')"
    by (simp add: step_shift)
  show ?case
  proof (cases sig)
    case None
    have "run_loop params g fuel (s'\<lparr>rng := rng s' + r\<rparr>) =
          map_option (map_prod id (advance_rng r))
            (run_loop params (\<lambda>k. g (k + r)) fuel (s'\<lparr>rng := rng s'\<rparr>))"
      by (rule Suc.IH)
    moreover have "s'\<lparr>rng := rng s' + r\<rparr> = advance_rng r s'" "s'\<lparr>rng := rng s'\<rparr> = s'"
      by (simp_all add: advance_rng_def)
    ultimately have "run_loop params g fuel (advance_rng r s') =
          map_option (map_prod id (advance_rng r)) (run_loop params (\<lambda>k. g (k + r)) fuel s')"
      by simp
    then show ?thesis using st st' None by (simp add: id_def)
  next
    case (Some a)
    then show ?thesis using st st' by (simp add: id_def)
  qed
qed

lemma run_shift:
  "run params g fuel t (s\<lparr>rng := j + r\<rparr>) =
     map_option (map_prod id (advance_rng r))
       (run params (\<lambda>k. g (k + r)) fuel t (s\<lparr>rng := j\<rparr>))"
  by (simp add: run_def schedule_rng run_loop_shift advance_rng_rng
      split: option.splits prod.splits signal.splits)

lemma init_rng: "init params r = Inr ((projr (init params 0))\<lparr>rng := r\<rparr>)"
  by (simp add: init_def schedule_def)

lemma get_metrics_advance_rng: "get_metrics (advance_rng r s) = get_metrics s"
  by (simp add: get_metrics_def advance_rng_def)

lemma rng_advance_rng: "rng (advance_rng r s) = rng s + r"
  by (simp add: advance_rng_def)

lemma run_simulation_shift:
  "run_simulation params g fuel t r =
     map_option (map_prod id (\<lambda>j. j + r)) (run_simulation params (\<lambda>k. g (k + r)) fuel t 0)"
proof -
  let ?s0 = "projr (init params 0)"
  let ?X = "run params (\<lambda>k. g (k + r)) fuel t (?s0\<lparr>rng := 0\<rparr>)"
  have "run params g fuel t (?s0\<lparr>rng := 0 + r\<rparr>) = map_option (map_prod id (advance_rng r)) ?X"
    by (rule run_shift)
  then have 1: "run params g fuel t (?s0\<lparr>rng := r\<rparr>) = map_option (map_prod id (advance_rng r)) ?X"
    by simp
  have 2: "run_simulation params g fuel t r =
      (case run params g fuel t (?s0\<lparr>rng := r\<rparr>) of
         None \<Rightarrow> None
       | Some (Inl err, s') \<Rightarrow> Some (Inl err, rng s')
       | Some (Inr u, s') \<Rightarrow> Some (Inr (get_metrics s'), rng s'))"
    unfolding run_simulation_def by (subst init_rng) simp
  have 3: "run_simulation params (\<lambda>k. g (k + r)) fuel t 0 =
      (case ?X of
         None \<Rightarrow> None
       | Some (Inl err, s') \<Rightarrow> Some (Inl err, rng s')
       | Some (Inr u, s') \<Rightarrow> Some (Inr (get_metrics s'), rng s'))"
    unfolding run_simulation_def by (subst init_rng) simp
  show ?thesis
  proof (cases ?X)
    case None
    then show ?thesis using 1 2 3 by simp
  next
    case (Some a)
    obtain res s' where a: "a = (res, s')" by (cases a)
    show ?thesis using 1 2 3 Some a
      by (cases res) (simp_all add: get_metrics_advance_rng rng_advance_rng)
  qed
qed

text \<open>
  C4, amended. Two simulations of the same configuration to the same horizon give the same
  outcome and the same snapshot whenever the process-wide generator yields the same
  variates from the start of the one as from the start of the other, that is, whenever it
  is in the same state at both starts.
\<close>

theorem same_generator_state_same_snapshot:
  assumes "\<forall>k. g1 (r1 + k) = g2 (r2 + k)"
  shows "map_option fst (run_simulation params g1 fuel t r1) =
         map_option fst (run_simulation params g2 fuel t r2)"
proof -
  have "(\<lambda>k. g1 (k + r1)) = (\<lambda>k. g2 (k + r2))" using assms by (simp add: add.commute)
  then show ?thesis
    using run_simulation_shift [of params g1 fuel t r1]
      run_simulation_shift [of params g2 fuel t r2]
    by (simp add: option.map_comp comp_def case_prod_beta)
qed

theorem same_generator_state_same_snapshot_witness:
  "(\<forall>k. two_phase (6 + k) = (\<lambda>k. 1 / 2) (0 + k)) \<and>
   map_option fst (run_simulation example_params two_phase 12 (203 / 100) 6) =
   map_option fst (run_simulation example_params (\<lambda>k. 1 / 2) 12 (203 / 100) 0)"
  using same_generator_state_same_snapshot
    [of two_phase 6 "\<lambda>k. 1 / 2" 0 example_params 12 "203 / 100"]
  by (simp add: two_phase_def)

end
